theory Spec2Isabelle
  imports Main "HOL-Library.AList"
begin

section \<open>Strings\<close>

text \<open>
  A Python \<open>str\<close> is a sequence of Unicode code points, so a string is a list of
  code points here. \<open>ustr\<close> turns an ASCII literal of the source into such a list.
\<close>

type_synonym pystr = "nat list"

definition ustr :: "string \<Rightarrow> pystr" where
  "ustr s = map of_char s"

text \<open>
  \<open>str.lower()\<close> and \<open>str.upper()\<close>. On ASCII they swap \<open>A..Z\<close> and \<open>a..z\<close> and
  leave everything else alone. The images of the other code points come from the
  Unicode tables of the Python runtime, which are no part of this program: they are
  the parameter \<open>T\<close>, one table for each direction, giving the code points that
  replace a given one (several for some, as for U+00DF).
\<close>

type_synonym casemap = "nat \<Rightarrow> pystr"

definition ascii_lower :: "nat \<Rightarrow> nat" where
  "ascii_lower c = (if 65 \<le> c \<and> c \<le> 90 then c + 32 else c)"

definition ascii_upper :: "nat \<Rightarrow> nat" where
  "ascii_upper c = (if 97 \<le> c \<and> c \<le> 122 then c - 32 else c)"

definition lower_cp :: "casemap \<Rightarrow> nat \<Rightarrow> pystr" where
  "lower_cp T c = (if c < 128 then [ascii_lower c] else T c)"

definition upper_cp :: "casemap \<Rightarrow> nat \<Rightarrow> pystr" where
  "upper_cp T c = (if c < 128 then [ascii_upper c] else T c)"

definition py_lower :: "casemap \<Rightarrow> pystr \<Rightarrow> pystr" where
  "py_lower T s = concat (map (lower_cp T) s)"

definition py_upper :: "casemap \<Rightarrow> pystr \<Rightarrow> pystr" where
  "py_upper T s = concat (map (upper_cp T) s)"

text \<open>
  Rows of the Unicode tables used in examples: U+0131 (dotless i) and U+017F (long s)
  are lower-case letters whose upper-case forms are the ASCII letters \<open>I\<close> and \<open>S\<close>;
  U+212A (Kelvin sign) lower-cases to ASCII \<open>k\<close>. All other code points are left
  unchanged by these two excerpts.
\<close>

definition ucd_lower :: casemap where
  "ucd_lower c = (if c = 0x212A then [107] else [c])"

definition ucd_upper :: casemap where
  "ucd_upper c = (if c = 0x131 then [73] else if c = 0x17F then [83] else [c])"

text \<open>\<open>str.rfind(c)\<close>: the highest index of \<open>c\<close>, or \<open>-1\<close>.\<close>

fun rfind :: "pystr \<Rightarrow> nat \<Rightarrow> int" where
  "rfind [] c = - 1"
| "rfind (x # xs) c =
     (let r = rfind xs c in if 0 \<le> r then r + 1 else if x = c then 0 else - 1)"

section \<open>The extension classifier\<close>

text \<open>
  A \<open>Path\<close> enters the classifier only through its final component \<open>name\<close>, so a path
  is represented by that name. \<open>PurePath.suffix\<close> (Python 3.8 to 3.12, the versions
  the package declares):
  \<^verbatim>\<open>
    name = self.name
    i = name.rfind('.')
    if 0 < i < len(name) - 1: return name[i:]
    else: return ''
  \<close>
\<close>

definition dot :: nat where
  "dot = 46"

definition suffix :: "pystr \<Rightarrow> pystr" where
  "suffix name =
     (let i = rfind name dot
      in if 0 < i \<and> i < int (length name) - 1 then drop (nat i) name else [])"

text \<open>\<open>self._file_extensions\<close>, a dict literal: the order of the items is the order written.\<close>

definition FILE_EXTENSIONS :: "(pystr \<times> pystr list) list" where
  "FILE_EXTENSIONS = map (\<lambda>(k, v). (ustr k, map ustr v))
     [(''Images'', [''.jpg'', ''.jpeg'', ''.png'', ''.gif'', ''.bmp'', ''.svg'', ''.webp'', ''.ico'']),
      (''Documents'', [''.pdf'', ''.doc'', ''.docx'', ''.txt'', ''.rtf'', ''.odt'', ''.xls'', ''.xlsx'',
                      ''.ppt'', ''.pptx'']),
      (''Videos'', [''.mp4'', ''.avi'', ''.mkv'', ''.mov'', ''.wmv'', ''.flv'', ''.webm'', ''.m4v'']),
      (''Audio'', [''.mp3'', ''.wav'', ''.flac'', ''.aac'', ''.ogg'', ''.m4a'', ''.wma'']),
      (''Archives'', [''.zip'', ''.rar'', ''.7z'', ''.tar'', ''.gz'', ''.bz2'']),
      (''Code'', [''.py'', ''.js'', ''.html'', ''.css'', ''.java'', ''.cpp'', ''.c'', ''.php'', ''.rb'',
                 ''.go'']),
      (''Executables'', [''.exe'', ''.msi'', ''.deb'', ''.rpm'', ''.dmg'', ''.app''])]"

definition OTHER :: pystr where
  "OTHER = ustr ''Other''"

text \<open>\<open>get_file_extension\<close>: \<open>file_path.suffix.lower()\<close>.\<close>

definition get_file_extension :: "casemap \<Rightarrow> pystr \<Rightarrow> pystr" where
  "get_file_extension T name = py_lower T (suffix name)"

text \<open>
  The loop of \<open>categorize_file\<close> over the items of a table: the first category whose list
  holds the extension, \<open>'Other'\<close> when the loop ends.
\<close>

fun categorize_in :: "(pystr \<times> pystr list) list \<Rightarrow> pystr \<Rightarrow> pystr" where
  "categorize_in [] extension = OTHER"
| "categorize_in ((category, extensions) # rest) extension =
     (if extension \<in> set extensions then category else categorize_in rest extension)"

definition categorize_file :: "casemap \<Rightarrow> pystr \<Rightarrow> pystr" where
  "categorize_file T name = categorize_in FILE_EXTENSIONS (get_file_extension T name)"

text \<open>\<open>list(self._file_extensions.keys()) + ['Other']\<close>.\<close>

definition categories :: "pystr list" where
  "categories = map fst FILE_EXTENSIONS @ [OTHER]"

section \<open>The file system under the target directory\<close>

text \<open>
  What lies at \<open>self.directory\<close>: nothing, a regular file with its content, or a
  directory with its entries. The entries are kept in the order in which \<open>iterdir\<close>
  yields them; a new entry goes to the end. Every path the program touches lies under
  the target directory, so the state of a run is the node at that path. Symbolic links
  and permissions are outside this model; a move that the operating system refuses
  (permission, lock, device) is the predicate \<open>denied\<close> on file names below.
\<close>

datatype node = File pystr | Dir "(pystr \<times> node) list"

type_synonym fs = "node option"

datatype error =
  FileNotFoundError | NotADirectoryError | FileExistsError | PermissionError
  | ShutilError | KeyError | IndexError | TypeError

text \<open>The lines the program prints, one constructor for each \<open>print\<close> of the source.\<close>

datatype notification =
  CreatedFolder pystr
  | NoFilesFound
  | FoundFiles nat
  | Moved pystr pystr
  | WouldMove pystr pystr
  | ErrorMoving pystr error
  | SummaryCategory pystr nat "pystr list"
  | SummaryTotal nat
  | FoldersCreated
  | DryRunNotice
  | DryRunHint
  | TopLevelError error

definition is_file :: "node \<Rightarrow> bool" where
  "is_file n = (case n of File _ \<Rightarrow> True | Dir _ \<Rightarrow> False)"

definition exists_fs :: "fs \<Rightarrow> bool" where
  "exists_fs fs = (fs \<noteq> None)"

definition iterdir :: "fs \<Rightarrow> error + (pystr \<times> node) list" where
  "iterdir fs =
     (case fs of
        None \<Rightarrow> Inl FileNotFoundError
      | Some (File _) \<Rightarrow> Inl NotADirectoryError
      | Some (Dir es) \<Rightarrow> Inr es)"

text \<open>
  \<open>(self.directory / name).mkdir(exist_ok=True)\<close>, with \<open>parents=False\<close>: a missing
  parent is \<open>FileNotFoundError\<close>; an existing directory of that name is accepted, an
  existing entry that is no directory is \<open>FileExistsError\<close>.
\<close>

definition mkdir_exist_ok :: "fs \<Rightarrow> pystr \<Rightarrow> error + fs" where
  "mkdir_exist_ok fs name =
     (case fs of
        None \<Rightarrow> Inl FileNotFoundError
      | Some (File _) \<Rightarrow> Inl NotADirectoryError
      | Some (Dir es) \<Rightarrow>
          (case map_of es name of
             None \<Rightarrow> Inr (Some (Dir (es @ [(name, Dir [])])))
           | Some (Dir _) \<Rightarrow> Inr fs
           | Some (File _) \<Rightarrow> Inl FileExistsError))"

text \<open>
  \<open>shutil.move(directory/name, directory/category/name)\<close>. When the destination is an
  existing directory the source is moved into it, unless an entry of the same name is
  there already. Otherwise the source is renamed to the destination, replacing a
  regular file that is there. A directory cannot be moved into itself nor onto a
  regular file. A failed move leaves the file system as it was.
\<close>

definition shutil_move :: "(pystr \<Rightarrow> bool) \<Rightarrow> fs \<Rightarrow> pystr \<Rightarrow> pystr \<Rightarrow> error + fs" where
  "shutil_move denied fs category name =
     (case fs of
        None \<Rightarrow> Inl FileNotFoundError
      | Some (File _) \<Rightarrow> Inl NotADirectoryError
      | Some (Dir es) \<Rightarrow>
          (case map_of es name of
             None \<Rightarrow> Inl FileNotFoundError
           | Some src \<Rightarrow>
               (case map_of es category of
                  None \<Rightarrow> Inl FileNotFoundError
                | Some (File _) \<Rightarrow> Inl NotADirectoryError
                | Some (Dir ces) \<Rightarrow>
                    if \<not> is_file src \<and> category = name then Inl ShutilError
                    else
                      (case map_of ces name of
                         Some (Dir des) \<Rightarrow>
                           if map_of des name \<noteq> None then Inl ShutilError
                           else if denied name then Inl PermissionError
                           else Inr (Some (Dir (AList.update category
                                  (Dir (AList.update name (Dir (des @ [(name, src)])) ces))
                                  (AList.delete name es))))
                       | Some (File _) \<Rightarrow>
                           if \<not> is_file src then Inl FileExistsError
                           else if denied name then Inl PermissionError
                           else Inr (Some (Dir (AList.update category
                                  (Dir (AList.update name src ces)) (AList.delete name es))))
                       | None \<Rightarrow>
                           if denied name then Inl PermissionError
                           else Inr (Some (Dir (AList.update category
                                  (Dir (AList.update name src ces)) (AList.delete name es))))))))"

section \<open>The folder provisioner\<close>

text \<open>
  The loop of \<open>create_category_folders\<close>: \<open>mkdir\<close>, then the line
  \<open>Created folder: category\<close>. An exception of \<open>mkdir\<close> ends the loop and leaves the
  folders made so far. A function returns its outcome, the file system it leaves and
  the lines it printed.
\<close>

fun create_folders_loop ::
  "pystr list \<Rightarrow> fs \<Rightarrow> (error + unit) \<times> fs \<times> notification list" where
  "create_folders_loop [] fs = (Inr (), fs, [])"
| "create_folders_loop (category # rest) fs =
     (case mkdir_exist_ok fs category of
        Inl e \<Rightarrow> (Inl e, fs, [])
      | Inr fs' \<Rightarrow>
          (case create_folders_loop rest fs' of
             (r, fs'', out) \<Rightarrow> (r, fs'', CreatedFolder category # out)))"

definition create_category_folders :: "fs \<Rightarrow> (error + unit) \<times> fs \<times> notification list" where
  "create_category_folders fs = create_folders_loop categories fs"

section \<open>The organization pipeline\<close>

type_synonym moved = "(pystr \<times> pystr list) list"

text \<open>\<open>moved_files[category].append(name)\<close>; a missing key is \<open>KeyError\<close>.\<close>

definition append_to :: "moved \<Rightarrow> pystr \<Rightarrow> pystr \<Rightarrow> error + moved" where
  "append_to moved_files category name =
     (case map_of moved_files category of
        None \<Rightarrow> Inl KeyError
      | Some files \<Rightarrow> Inr (AList.update category (files @ [name]) moved_files))"

text \<open>
  The body of the loop over \<open>files\<close>: the \<open>try\<close> block and its \<open>except Exception\<close>, which
  prints the error and lets the loop go on.
\<close>

definition process_file ::
  "casemap \<Rightarrow> (pystr \<Rightarrow> bool) \<Rightarrow> bool \<Rightarrow> pystr \<Rightarrow> fs \<Rightarrow> moved \<Rightarrow> moved \<times> fs \<times> notification" where
  "process_file T denied dry_run name fs moved_files =
     (let category = categorize_file T name in
      if \<not> dry_run then
        (case shutil_move denied fs category name of
           Inl e \<Rightarrow> (moved_files, fs, ErrorMoving name e)
         | Inr fs' \<Rightarrow>
             (case append_to moved_files category name of
                Inl e \<Rightarrow> (moved_files, fs', ErrorMoving name e)
              | Inr moved_files' \<Rightarrow> (moved_files', fs', Moved name category)))
      else
        (case append_to moved_files category name of
           Inl e \<Rightarrow> (moved_files, fs, ErrorMoving name e)
         | Inr moved_files' \<Rightarrow> (moved_files', fs, WouldMove name category)))"

fun move_loop ::
  "casemap \<Rightarrow> (pystr \<Rightarrow> bool) \<Rightarrow> bool \<Rightarrow> pystr list \<Rightarrow> fs \<Rightarrow> moved
     \<Rightarrow> moved \<times> fs \<times> notification list" where
  "move_loop T denied dry_run [] fs moved_files = (moved_files, fs, [])"
| "move_loop T denied dry_run (name # rest) fs moved_files =
     (case process_file T denied dry_run name fs moved_files of
        (moved_files', fs', line) \<Rightarrow>
          (case move_loop T denied dry_run rest fs' moved_files' of
             (moved_files'', fs'', out) \<Rightarrow> (moved_files'', fs'', line # out)))"

text \<open>\<open>[f for f in self.directory.iterdir() if f.is_file()]\<close>, as names.\<close>

definition regular_files :: "(pystr \<times> node) list \<Rightarrow> pystr list" where
  "regular_files es = map fst (filter (\<lambda>(n, f). is_file f) es)"

definition empty_result :: moved where
  "empty_result = map (\<lambda>category. (category, [])) categories"

definition organize_files ::
  "casemap \<Rightarrow> (pystr \<Rightarrow> bool) \<Rightarrow> fs \<Rightarrow> bool \<Rightarrow> (error + moved) \<times> fs \<times> notification list" where
  "organize_files T denied fs dry_run =
     (if \<not> exists_fs fs then (Inl FileNotFoundError, fs, [])
      else
        (case iterdir fs of
           Inl e \<Rightarrow> (Inl e, fs, [])
         | Inr es \<Rightarrow>
             (let files = regular_files es in
              if files = [] then (Inr empty_result, fs, [NoFilesFound])
              else
                (case (if \<not> dry_run then create_category_folders fs else (Inr (), fs, [])) of
                   (Inl e, fs1, out1) \<Rightarrow> (Inl e, fs1, FoundFiles (length files) # out1)
                 | (Inr _, fs1, out1) \<Rightarrow>
                     (case move_loop T denied dry_run files fs1 empty_result of
                        (moved_files, fs2, out2) \<Rightarrow>
                          (Inr moved_files, fs2, FoundFiles (length files) # out1 @ out2))))))"

section \<open>The summary\<close>

text \<open>
  \<open>print_summary\<close>: a block for each category with files, and the total of their
  lengths.
\<close>

fun summary_loop :: "moved \<Rightarrow> nat \<Rightarrow> nat \<times> notification list" where
  "summary_loop [] total_files = (total_files, [])"
| "summary_loop ((category, files) # rest) total_files =
     (if files \<noteq> [] then
        (case summary_loop rest (total_files + length files) of
           (t, out) \<Rightarrow> (t, SummaryCategory category (length files) files # out))
      else summary_loop rest total_files)"

definition print_summary :: "moved \<Rightarrow> notification list" where
  "print_summary moved_files =
     (case summary_loop moved_files 0 of (t, out) \<Rightarrow> out @ [SummaryTotal t])"

definition total_reported :: "moved \<Rightarrow> nat" where
  "total_reported moved_files = fst (summary_loop moved_files 0)"

section \<open>The command-line entry point\<close>

text \<open>
  \<open>main\<close>, after argument parsing: the target directory, \<open>--dry-run\<close> and
  \<open>--create-folders\<close>. It provisions the folders before it calls \<open>organize_files\<close>,
  in a dry run too. An exception ends it with the line \<open>Error: ...\<close> and status 1.
\<close>

definition main ::
  "casemap \<Rightarrow> (pystr \<Rightarrow> bool) \<Rightarrow> fs \<Rightarrow> bool \<Rightarrow> bool \<Rightarrow> int \<times> fs \<times> notification list" where
  "main T denied fs dry_run create_folders =
     (if create_folders then
        (case create_category_folders fs of
           (Inl e, fs1, out1) \<Rightarrow> (1, fs1, out1 @ [TopLevelError e])
         | (Inr _, fs1, out1) \<Rightarrow> (0, fs1, out1 @ [FoldersCreated]))
      else
        (case create_category_folders fs of
           (Inl e, fs1, out1) \<Rightarrow> (1, fs1, out1 @ [TopLevelError e])
         | (Inr _, fs1, out1) \<Rightarrow>
             (case organize_files T denied fs1 dry_run of
                (Inl e, fs2, out2) \<Rightarrow> (1, fs2, out1 @ out2 @ [TopLevelError e])
              | (Inr moved_files, fs2, out2) \<Rightarrow>
                  (0, fs2,
                   out1 @ out2 @ print_summary moved_files
                     @ (if dry_run then [DryRunNotice, DryRunHint] else [])))))"

section \<open>The table as a shared object\<close>

text \<open>
  The table lives in objects that can be shared: a dict whose values are references to
  list objects. A heap is the list of the objects allocated so far, the address of an
  object is its index, and a new object goes to the end. The strings in the lists
  are immutable values.
\<close>

datatype obj = ListObj "pystr list" | DictObj "(pystr \<times> nat) list"

type_synonym heap = "obj list"

text \<open>
  The fields of a \<open>FileOrganizer\<close>: \<open>self.directory\<close> and the reference held in
  \<open>self._file_extensions\<close>.
\<close>

record organizer =
  directory :: pystr
  file_extensions_ref :: nat

definition alloc :: "heap \<Rightarrow> obj \<Rightarrow> nat \<times> heap" where
  "alloc h x = (length h, h @ [x])"

definition get_list :: "heap \<Rightarrow> nat \<Rightarrow> pystr list option" where
  "get_list h a =
     (if a < length h then (case h ! a of ListObj l \<Rightarrow> Some l | DictObj _ \<Rightarrow> None) else None)"

definition get_dict :: "heap \<Rightarrow> nat \<Rightarrow> (pystr \<times> nat) list option" where
  "get_dict h a =
     (if a < length h then (case h ! a of DictObj items \<Rightarrow> Some items | ListObj _ \<Rightarrow> None) else None)"

text \<open>
  \<open>__init__\<close>: the dict literal allocates the seven lists, in the order written, then
  the dict that refers to them.
\<close>

fun alloc_lists :: "(pystr \<times> pystr list) list \<Rightarrow> heap \<Rightarrow> (pystr \<times> nat) list \<times> heap" where
  "alloc_lists [] h = ([], h)"
| "alloc_lists ((k, v) # rest) h =
     (case alloc h (ListObj v) of
        (a, h1) \<Rightarrow> (case alloc_lists rest h1 of (items, h2) \<Rightarrow> ((k, a) # items, h2)))"

definition init :: "pystr \<Rightarrow> heap \<Rightarrow> organizer \<times> heap" where
  "init dir h =
     (case alloc_lists FILE_EXTENSIONS h of
        (items, h1) \<Rightarrow>
          (case alloc h1 (DictObj items) of
             (d, h2) \<Rightarrow> (\<lparr>directory = dir, file_extensions_ref = d\<rparr>, h2)))"

text \<open>
  The table as the methods see it through a reference: the items of the dict with the
  contents of their lists. \<open>None\<close> stands for a reference that does not lead to a dict
  of lists (a \<open>TypeError\<close> or \<open>AttributeError\<close> in Python).
\<close>

fun read_items :: "heap \<Rightarrow> (pystr \<times> nat) list \<Rightarrow> (pystr \<times> pystr list) list option" where
  "read_items h [] = Some []"
| "read_items h ((k, a) # rest) =
     (case get_list h a of
        None \<Rightarrow> None
      | Some l \<Rightarrow> (case read_items h rest of None \<Rightarrow> None | Some r \<Rightarrow> Some ((k, l) # r)))"

definition read_table :: "heap \<Rightarrow> nat \<Rightarrow> (pystr \<times> pystr list) list option" where
  "read_table h a = (case get_dict h a of None \<Rightarrow> None | Some items \<Rightarrow> read_items h items)"

text \<open>
  \<open>categorize_file\<close> and the category list of \<open>create_category_folders\<close>, reading
  \<open>self._file_extensions\<close> from the heap, and \<open>create_category_folders\<close> itself.
\<close>

definition categorize_file_obj :: "casemap \<Rightarrow> heap \<Rightarrow> organizer \<Rightarrow> pystr \<Rightarrow> pystr option" where
  "categorize_file_obj T h self name =
     (case read_table h (file_extensions_ref self) of
        None \<Rightarrow> None
      | Some table \<Rightarrow> Some (categorize_in table (get_file_extension T name)))"

definition category_list :: "heap \<Rightarrow> organizer \<Rightarrow> pystr list option" where
  "category_list h self =
     (case get_dict h (file_extensions_ref self) of
        None \<Rightarrow> None
      | Some items \<Rightarrow> Some (map fst items @ [OTHER]))"

definition create_category_folders_obj ::
  "heap \<Rightarrow> organizer \<Rightarrow> fs \<Rightarrow> ((error + unit) \<times> fs \<times> notification list) option" where
  "create_category_folders_obj h self fs =
     (case category_list h self of
        None \<Rightarrow> None
      | Some cs \<Rightarrow> Some (create_folders_loop cs fs))"

text \<open>
  The property \<open>file_extensions\<close>:
  \<open>{k: v.copy() for k, v in self._file_extensions.items()}\<close>, a new list for each
  value and a new dict; it returns the reference to the new dict.
\<close>

fun copy_lists :: "heap \<Rightarrow> (pystr \<times> nat) list \<Rightarrow> ((pystr \<times> nat) list \<times> heap) option" where
  "copy_lists h [] = Some ([], h)"
| "copy_lists h ((k, a) # rest) =
     (case get_list h a of
        None \<Rightarrow> None
      | Some l \<Rightarrow>
          (case alloc h (ListObj l) of
             (a', h1) \<Rightarrow>
               (case copy_lists h1 rest of
                  None \<Rightarrow> None
                | Some (items, h2) \<Rightarrow> Some ((k, a') # items, h2))))"

definition file_extensions :: "heap \<Rightarrow> organizer \<Rightarrow> (nat \<times> heap) option" where
  "file_extensions h self =
     (case get_dict h (file_extensions_ref self) of
        None \<Rightarrow> None
      | Some items \<Rightarrow>
          (case copy_lists h items of
             None \<Rightarrow> None
           | Some (items', h1) \<Rightarrow> Some (alloc h1 (DictObj items'))))"

text \<open>
  What a caller can do to the mapping it received, through the reference \<open>d\<close>:
  \<open>d[k] = [..]\<close> (a new list), \<open>del d[k]\<close>, \<open>d.clear()\<close>, \<open>d[k1] = d[k2]\<close>,
  \<open>d[k].append(x)\<close>, \<open>d[k][i] = x\<close> and \<open>d[k].clear()\<close>. A mutation that raises
  changes nothing, and the caller may go on after it.
\<close>

datatype mutation =
  SetItem pystr "pystr list"
  | DelItem pystr
  | Clear
  | Alias pystr pystr
  | Append pystr pystr
  | SetElem pystr nat pystr
  | ClearList pystr

definition with_list ::
  "heap \<Rightarrow> (pystr \<times> nat) list \<Rightarrow> pystr \<Rightarrow> (nat \<Rightarrow> pystr list \<Rightarrow> error + heap) \<Rightarrow> error + heap" where
  "with_list h items k f =
     (case map_of items k of
        None \<Rightarrow> Inl KeyError
      | Some a \<Rightarrow> (case get_list h a of None \<Rightarrow> Inl TypeError | Some l \<Rightarrow> f a l))"

definition mutate :: "heap \<Rightarrow> nat \<Rightarrow> mutation \<Rightarrow> error + heap" where
  "mutate h d m =
     (case get_dict h d of
        None \<Rightarrow> Inl TypeError
      | Some items \<Rightarrow>
          (case m of
             SetItem k v \<Rightarrow>
               (case alloc h (ListObj v) of
                  (a, h1) \<Rightarrow> Inr (h1[d := DictObj (AList.update k a items)]))
           | DelItem k \<Rightarrow>
               if map_of items k = None then Inl KeyError
               else Inr (h[d := DictObj (AList.delete k items)])
           | Clear \<Rightarrow> Inr (h[d := DictObj []])
           | Alias k1 k2 \<Rightarrow>
               (case map_of items k2 of
                  None \<Rightarrow> Inl KeyError
                | Some a \<Rightarrow> Inr (h[d := DictObj (AList.update k1 a items)]))
           | Append k x \<Rightarrow> with_list h items k (\<lambda>a l. Inr (h[a := ListObj (l @ [x])]))
           | SetElem k i x \<Rightarrow>
               with_list h items k
                 (\<lambda>a l. if i < length l then Inr (h[a := ListObj (l[i := x])]) else Inl IndexError)
           | ClearList k \<Rightarrow> with_list h items k (\<lambda>a l. Inr (h[a := ListObj []]))))"

fun mutate_all :: "heap \<Rightarrow> nat \<Rightarrow> mutation list \<Rightarrow> heap" where
  "mutate_all h d [] = h"
| "mutate_all h d (m # ms) =
     (case mutate h d m of Inl e \<Rightarrow> mutate_all h d ms | Inr h' \<Rightarrow> mutate_all h' d ms)"

section \<open>Auxiliary notions for the statements\<close>

text \<open>An environment in which the operating system refuses no move.\<close>

definition no_denial :: "pystr \<Rightarrow> bool" where
  "no_denial name = False"

text \<open>A directory of the given name lies directly under the target directory.\<close>

definition folder_exists :: "fs \<Rightarrow> pystr \<Rightarrow> bool" where
  "folder_exists fs name =
     (case fs of
        Some (Dir es) \<Rightarrow> (case map_of es name of Some (Dir _) \<Rightarrow> True | _ \<Rightarrow> False)
      | _ \<Rightarrow> False)"

text \<open>
  \<open>PurePath.stem\<close>, the counterpart of \<open>suffix\<close>:
  \<open>name[:i]\<close> under the same condition, else the whole name.
\<close>

definition stem :: "pystr \<Rightarrow> pystr" where
  "stem name =
     (let i = rfind name dot
      in if 0 < i \<and> i < int (length name) - 1 then take (nat i) name else name)"

text \<open>
  The file name with its extension upper-cased, the operation of the case-insensitivity
  property: with \<open>str.upper()\<close>, and with the ASCII letters alone.
\<close>

definition upper_case_extension :: "casemap \<Rightarrow> pystr \<Rightarrow> pystr" where
  "upper_case_extension U name = stem name @ py_upper U (suffix name)"

definition ascii_upper_case_extension :: "pystr \<Rightarrow> pystr" where
  "ascii_upper_case_extension name = stem name @ map ascii_upper (suffix name)"

text \<open>The part of a string after the last occurrence of \<open>c\<close> (all of it when there is none).\<close>

fun after_last :: "nat \<Rightarrow> pystr \<Rightarrow> pystr" where
  "after_last c [] = []"
| "after_last c (x # xs) =
     (if c \<in> set xs then after_last c xs else if x = c then xs else x # xs)"

text \<open>The table of the specification (section 6), as written there.\<close>

definition SECTION6_TABLE :: "(string \<times> string list) list" where
  "SECTION6_TABLE =
     [(''Images'', [''.jpg'', ''.jpeg'', ''.png'', ''.gif'', ''.bmp'', ''.svg'', ''.webp'', ''.ico'']),
      (''Documents'', [''.pdf'', ''.doc'', ''.docx'', ''.txt'', ''.rtf'', ''.odt'', ''.xls'', ''.xlsx'',
                      ''.ppt'', ''.pptx'']),
      (''Videos'', [''.mp4'', ''.avi'', ''.mkv'', ''.mov'', ''.wmv'', ''.flv'', ''.webm'', ''.m4v'']),
      (''Audio'', [''.mp3'', ''.wav'', ''.flac'', ''.aac'', ''.ogg'', ''.m4a'', ''.wma'']),
      (''Archives'', [''.zip'', ''.rar'', ''.7z'', ''.tar'', ''.gz'', ''.bz2'']),
      (''Code'', [''.py'', ''.js'', ''.html'', ''.css'', ''.java'', ''.cpp'', ''.c'', ''.php'', ''.rb'',
                 ''.go'']),
      (''Executables'', [''.exe'', ''.msi'', ''.deb'', ''.rpm'', ''.dmg'', ''.app''])]"

definition scenario_dir :: "pystr \<Rightarrow> pystr \<Rightarrow> pystr \<Rightarrow> fs" where
  "scenario_dir c1 c2 c3 =
     Some (Dir [(ustr ''image1.jpg'', File c1), (ustr ''document1.pdf'', File c2),
                (ustr ''unknown1.xyz'', File c3)])"

definition scenario_result :: moved where
  "scenario_result =
     [(ustr ''Images'', [ustr ''image1.jpg'']), (ustr ''Documents'', [ustr ''document1.pdf'']),
      (ustr ''Videos'', []), (ustr ''Audio'', []), (ustr ''Archives'', []), (ustr ''Code'', []),
      (ustr ''Executables'', []), (ustr ''Other'', [ustr ''unknown1.xyz''])]"

definition scenario_layout :: "pystr \<Rightarrow> pystr \<Rightarrow> pystr \<Rightarrow> fs" where
  "scenario_layout c1 c2 c3 =
     Some (Dir [(ustr ''Images'', Dir [(ustr ''image1.jpg'', File c1)]),
                (ustr ''Documents'', Dir [(ustr ''document1.pdf'', File c2)]),
                (ustr ''Videos'', Dir []), (ustr ''Audio'', Dir []), (ustr ''Archives'', Dir []),
                (ustr ''Code'', Dir []), (ustr ''Executables'', Dir []),
                (ustr ''Other'', Dir [(ustr ''unknown1.xyz'', File c3)])])"

text \<open>
  The entries of a directory after folder provisioning: the old entries, then an empty
  folder for each category that had no entry, in the order of the category list.
\<close>

definition provisioned :: "(pystr \<times> node) list \<Rightarrow> (pystr \<times> node) list" where
  "provisioned es =
     es @ map (\<lambda>category. (category, Dir [])) (filter (\<lambda>category. map_of es category = None) categories)"

text \<open>No regular file of the given name lies directly under the target directory.\<close>

definition no_file_named :: "(pystr \<times> node) list \<Rightarrow> pystr \<Rightarrow> bool" where
  "no_file_named es name = (case map_of es name of Some (File _) \<Rightarrow> False | _ \<Rightarrow> True)"

text \<open>A directory with one category folder in use and one regular file.\<close>

definition sample_entries :: "(pystr \<times> node) list" where
  "sample_entries =
     [(ustr ''Images'', Dir [(ustr ''a.png'', File [])]), (ustr ''notes.txt'', File (ustr ''hello''))]"

text \<open>The error with which the move of a file into a category folder fails, if it does.\<close>

definition move_error :: "(pystr \<Rightarrow> bool) \<Rightarrow> fs \<Rightarrow> pystr \<Rightarrow> pystr \<Rightarrow> error option" where
  "move_error denied fs category name =
     (case shutil_move denied fs category name of Inl e \<Rightarrow> Some e | Inr _ \<Rightarrow> None)"

text \<open>
  The entry of a given name directly under the target directory, and the entry of a
  given name in one of its folders.
\<close>

definition top_entry :: "fs \<Rightarrow> pystr \<Rightarrow> node option" where
  "top_entry fs name = (case fs of Some (Dir es) \<Rightarrow> map_of es name | _ \<Rightarrow> None)"

definition sub_entry :: "fs \<Rightarrow> pystr \<Rightarrow> pystr \<Rightarrow> node option" where
  "sub_entry fs folder name =
     (case top_entry fs folder of Some (Dir ces) \<Rightarrow> map_of ces name | _ \<Rightarrow> None)"

text \<open>The line printed for a file in a live run: \<open>Error moving\<close> with the cause, or \<open>Moved\<close>.\<close>

definition move_line :: "casemap \<Rightarrow> (pystr \<Rightarrow> bool) \<Rightarrow> fs \<Rightarrow> pystr \<Rightarrow> notification" where
  "move_line T denied fs name =
     (case move_error denied fs (categorize_file T name) name of
        Some e \<Rightarrow> ErrorMoving name e
      | None \<Rightarrow> Moved name (categorize_file T name))"

text \<open>
  The state in which the loop of a live run works: every category has its folder, the
  files still to be moved are regular files under the target directory, each once.
\<close>

definition ready :: "(pystr \<times> node) list \<Rightarrow> pystr list \<Rightarrow> bool" where
  "ready es files \<longleftrightarrow>
     (\<forall>c \<in> set categories. \<exists>d. map_of es c = Some (Dir d))
     \<and> (\<forall>n \<in> set files. \<exists>x. map_of es n = Some (File x))
     \<and> distinct files"

text \<open>
  A directory where one move is refused by the operating system and another finds its
  destination taken: \<open>Images/b.jpg\<close> is a directory that holds a \<open>b.jpg\<close>.
\<close>

definition refused_entries :: "(pystr \<times> node) list" where
  "refused_entries =
     [(ustr ''a.txt'', File (ustr ''text'')), (ustr ''b.jpg'', File (ustr ''new'')),
      (ustr ''c.pdf'', File []),
      (ustr ''Images'', Dir [(ustr ''b.jpg'', Dir [(ustr ''b.jpg'', File (ustr ''old''))])])]"

definition refuse_c_pdf :: "pystr \<Rightarrow> bool" where
  "refuse_c_pdf name = (name = ustr ''c.pdf'')"

text \<open>
  Two heaps hold the same objects at the first \<open>n\<close> addresses; and the dict at \<open>d\<close>,
  with every list it refers to, lies beyond the first \<open>n\<close> addresses.
\<close>

definition agree :: "nat \<Rightarrow> heap \<Rightarrow> heap \<Rightarrow> bool" where
  "agree n h h' \<longleftrightarrow> n \<le> length h \<and> n \<le> length h' \<and> take n h' = take n h"

definition caller_owns :: "nat \<Rightarrow> heap \<Rightarrow> nat \<Rightarrow> bool" where
  "caller_owns n h d \<longleftrightarrow>
     n \<le> d \<and> (\<forall>items. get_dict h d = Some items \<longrightarrow> (\<forall>a \<in> snd ` set items. n \<le> a))"

section \<open>Properties\<close>

subsection \<open>The category list\<close>

lemma categories_eq:
  "categories = map ustr [''Images'', ''Documents'', ''Videos'', ''Audio'', ''Archives'', ''Code'',
     ''Executables'', ''Other'']"
  by (simp add: categories_def FILE_EXTENSIONS_def OTHER_def)

subsection \<open>A missing target directory\<close>

lemma mkdir_exist_ok_Some:
  "mkdir_exist_ok (Some n) c = Inr fs' \<Longrightarrow> \<exists>n'. fs' = Some n'"
  by (auto simp: mkdir_exist_ok_def split: node.splits option.splits)

lemma mkdir_exist_ok_not_missing:
  "mkdir_exist_ok (Some n) c \<noteq> Inl FileNotFoundError"
  by (auto simp: mkdir_exist_ok_def split: node.splits option.splits)

lemma create_folders_loop_not_missing:
  "fst (create_folders_loop cs (Some n)) \<noteq> Inl FileNotFoundError"
proof (induction cs arbitrary: n)
  case Nil
  show ?case by simp
next
  case (Cons c cs)
  show ?case
  proof (cases "mkdir_exist_ok (Some n) c")
    case (Inl e)
    with mkdir_exist_ok_not_missing [of n c] show ?thesis by auto
  next
    case (Inr fs')
    then obtain n' where "fs' = Some n'" using mkdir_exist_ok_Some by blast
    with Inr Cons.IH [of n'] show ?thesis by (auto split: prod.splits)
  qed
qed

text \<open>
  C10. When the target directory does not exist, \<open>create_category_folders\<close> raises
  (\<open>FileNotFoundError\<close>, at the first \<open>mkdir\<close>, which makes no parents), prints nothing
  and creates nothing: the target directory is still missing afterwards.
\<close>

theorem create_category_folders_missing_target:
  "create_category_folders None = (Inl FileNotFoundError, None, [])"
  by (simp add: create_category_folders_def categories_eq mkdir_exist_ok_def)

text \<open>
  C3. On a missing directory \<open>organize_files\<close> raises \<open>FileNotFoundError\<close> in either
  mode, with the file system untouched, nothing printed and no result; on a path that
  exists it never raises \<open>FileNotFoundError\<close>.
\<close>

theorem organize_files_not_found:
  "organize_files T denied None dry_run = (Inl FileNotFoundError, None, [])
   \<and> fst (organize_files T denied (Some n) dry_run) \<noteq> Inl FileNotFoundError"
proof
  show "organize_files T denied None dry_run = (Inl FileNotFoundError, None, [])"
    by (simp add: organize_files_def exists_fs_def)
next
  have "fst (create_category_folders (Some n)) \<noteq> Inl FileNotFoundError"
    unfolding create_category_folders_def by (rule create_folders_loop_not_missing)
  then show "fst (organize_files T denied (Some n) dry_run) \<noteq> Inl FileNotFoundError"
    by (auto simp: organize_files_def exists_fs_def iterdir_def Let_def
        split: node.splits prod.splits sum.splits)
qed

subsection \<open>A directory without regular files\<close>

text \<open>
  C1, as stated, fails: a live run on an empty directory returns the empty result, but
  the early return for an empty file list comes before the folders are provisioned, so
  the eight folders are not there afterwards.
\<close>

theorem organize_files_empty_creates_no_folder:
  "\<not> (fst (organize_files ucd_lower no_denial (Some (Dir [])) False) = Inr empty_result
      \<and> list_all (folder_exists (fst (snd (organize_files ucd_lower no_denial (Some (Dir [])) False))))
           categories)"
  by (simp add: organize_files_def exists_fs_def iterdir_def regular_files_def folder_exists_def
      categories_eq)

text \<open>
  C1, amended. A live run on an existing directory without regular files returns, with
  no error, the result that maps each of the eight categories (the seven keys of the
  table, then \<open>Other\<close>) to the empty list; it prints that no files were found and leaves
  the directory exactly as it was, so it creates no folder.
\<close>

theorem organize_files_no_regular_files:
  assumes "regular_files es = []"
  shows "organize_files T denied (Some (Dir es)) False
           = (Inr empty_result, Some (Dir es), [NoFilesFound])
         \<and> map fst empty_result = categories \<and> length categories = 8
         \<and> list_all (\<lambda>c. map_of empty_result c = Some []) categories"
proof -
  have "organize_files T denied (Some (Dir es)) False
           = (Inr empty_result, Some (Dir es), [NoFilesFound])"
    using assms by (simp add: organize_files_def exists_fs_def iterdir_def)
  moreover have "map fst empty_result = categories"
    by (simp add: empty_result_def comp_def)
  moreover have "length categories = 8" by (simp add: categories_eq)
  moreover have "list_all (\<lambda>c. map_of empty_result c = Some []) categories"
    by (simp add: empty_result_def categories_eq ustr_def)
  ultimately show ?thesis by simp
qed

theorem organize_files_no_regular_files_witness:
  "regular_files [(ustr ''sub'', Dir [(ustr ''a.txt'', File [])])] = []
   \<and> organize_files ucd_lower no_denial (Some (Dir [(ustr ''sub'', Dir [(ustr ''a.txt'', File [])])])) False
       = (Inr empty_result, Some (Dir [(ustr ''sub'', Dir [(ustr ''a.txt'', File [])])]), [NoFilesFound])"
proof -
  have h: "regular_files [(ustr ''sub'', Dir [(ustr ''a.txt'', File [])])] = []"
    by (simp add: regular_files_def is_file_def)
  show ?thesis using h organize_files_no_regular_files [OF h] by simp
qed

text \<open>
  Through \<open>main\<close> the folders are provisioned before \<open>organize_files\<close> runs: on an
  empty directory the eight folders are there afterwards and the total is 0; and in a
  dry run on a directory with one file the folders are created as well, although
  \<open>organize_files\<close> itself creates none in a dry run.
\<close>

lemma main_empty_directory:
  "main T denied (Some (Dir [])) False False
     = (0, Some (Dir (map (\<lambda>c. (c, Dir [])) categories)),
        map CreatedFolder categories @ [NoFilesFound, SummaryTotal 0])"
  by code_simp

lemma main_dry_run_provisions:
  "main T denied (Some (Dir [(ustr ''a.JPG'', File c)])) True False
     = (0, Some (Dir ((ustr ''a.JPG'', File c) # map (\<lambda>c. (c, Dir [])) categories)),
        map CreatedFolder categories
          @ [FoundFiles 1, WouldMove (ustr ''a.JPG'') (ustr ''Images''),
             SummaryCategory (ustr ''Images'') 1 [ustr ''a.JPG''], SummaryTotal 1,
             DryRunNotice, DryRunHint])"
  by code_simp

subsection \<open>The classifier\<close>

lemma rfind_notin: "c \<notin> set xs \<Longrightarrow> rfind xs c = - 1"
  by (induction xs) (auto simp: Let_def)

lemma rfind_last: "c \<notin> set rest \<Longrightarrow> rfind (pre @ c # rest) c = int (length pre)"
  by (induction pre) (auto simp: Let_def rfind_notin)

lemma after_last_last: "c \<notin> set rest \<Longrightarrow> after_last c (pre @ c # rest) = rest"
  by (induction pre) auto

lemma suffix_last:
  assumes "dot \<notin> set rest"
  shows "suffix (pre @ dot # rest) = (if pre \<noteq> [] \<and> rest \<noteq> [] then dot # rest else [])"
  using assms by (auto simp: suffix_def rfind_last Let_def)

lemma stem_last:
  assumes "dot \<notin> set rest"
  shows "stem (pre @ dot # rest) = (if pre \<noteq> [] \<and> rest \<noteq> [] then pre else pre @ dot # rest)"
  using assms by (auto simp: stem_def rfind_last Let_def)

lemma suffix_no_dot: "dot \<notin> set name \<Longrightarrow> suffix name = []"
  by (simp add: suffix_def rfind_notin)

lemma stem_no_dot: "dot \<notin> set name \<Longrightarrow> stem name = name"
  by (simp add: stem_def rfind_notin)

lemma stem_suffix: "stem name @ suffix name = name"
  by (simp add: stem_def suffix_def Let_def)

lemma categorize_in_range: "categorize_in tbl e \<in> set (map fst tbl @ [OTHER])"
  by (induction tbl e rule: categorize_in.induct) auto

lemma categorize_in_unlisted:
  "e \<notin> set (concat (map snd tbl)) \<Longrightarrow> categorize_in tbl e = OTHER"
  by (induction tbl e rule: categorize_in.induct) auto

lemma categorize_in_listed:
  "distinct (concat (map snd tbl)) \<Longrightarrow> (cat, exts) \<in> set tbl \<Longrightarrow> e \<in> set exts
     \<Longrightarrow> categorize_in tbl e = cat"
proof (induction tbl e rule: categorize_in.induct)
  case (1 extension)
  then show ?case by simp
next
  case (2 category extensions rest extension)
  show ?case
  proof (cases "extension \<in> set extensions")
    case True
    have "(cat, exts) \<notin> set rest"
    proof
      assume "(cat, exts) \<in> set rest"
      with "2.prems"(3) have "extension \<in> set (concat (map snd rest))" by force
      with True "2.prems"(1) show False by auto
    qed
    with "2.prems"(2) True show ?thesis by auto
  next
    case False
    with "2.prems" have "(cat, exts) \<in> set rest" by auto
    with False "2.IH" "2.prems" show ?thesis by auto
  qed
qed

lemma all_extensions:
  "concat (map snd FILE_EXTENSIONS) = map ustr
     [''.jpg'', ''.jpeg'', ''.png'', ''.gif'', ''.bmp'', ''.svg'', ''.webp'', ''.ico'',
      ''.pdf'', ''.doc'', ''.docx'', ''.txt'', ''.rtf'', ''.odt'', ''.xls'', ''.xlsx'', ''.ppt'', ''.pptx'',
      ''.mp4'', ''.avi'', ''.mkv'', ''.mov'', ''.wmv'', ''.flv'', ''.webm'', ''.m4v'',
      ''.mp3'', ''.wav'', ''.flac'', ''.aac'', ''.ogg'', ''.m4a'', ''.wma'',
      ''.zip'', ''.rar'', ''.7z'', ''.tar'', ''.gz'', ''.bz2'',
      ''.py'', ''.js'', ''.html'', ''.css'', ''.java'', ''.cpp'', ''.c'', ''.php'', ''.rb'', ''.go'',
      ''.exe'', ''.msi'', ''.deb'', ''.rpm'', ''.dmg'', ''.app'']"
  by (simp add: FILE_EXTENSIONS_def)

lemma distinct_extensions: "distinct (concat (map snd FILE_EXTENSIONS))"
  unfolding all_extensions by (simp add: ustr_def)

lemma empty_not_listed: "[] \<notin> set (concat (map snd FILE_EXTENSIONS))"
  unfolding all_extensions by (simp add: ustr_def)

lemma dot_not_listed: "[dot] \<notin> set (concat (map snd FILE_EXTENSIONS))"
  unfolding all_extensions by (simp add: ustr_def dot_def)

lemma py_lower_dot: "py_lower T (dot # s) = dot # py_lower T s"
  by (simp add: py_lower_def lower_cp_def ascii_lower_def dot_def)

lemma py_lower_Nil: "py_lower T [] = []"
  by (simp add: py_lower_def)


lemma suffix_cases:
  obtains (none) "dot \<notin> set (tl name)" "suffix name = []" "stem name = name"
  | (trailing) pre where "name = pre @ [dot]" "pre \<noteq> []" "suffix name = []" "stem name = name"
  | (ext) pre rest where "name = pre @ dot # rest" "pre \<noteq> []" "rest \<noteq> []" "dot \<notin> set rest"
      "suffix name = dot # rest" "stem name = pre"
proof (cases "dot \<in> set name")
  case False
  then have "dot \<notin> set (tl name)" by (cases name) auto
  with False none show ?thesis by (simp add: suffix_no_dot stem_no_dot)
next
  case True
  then obtain pre rest where d: "name = pre @ dot # rest" "dot \<notin> set rest"
    using split_list_last by fastforce
  show ?thesis
  proof (cases "pre = []")
    case True
    with d have "dot \<notin> set (tl name)" by simp
    moreover from d True have "suffix name = []" using suffix_last [of rest "[]"] by simp
    moreover from d True have "stem name = name" using stem_last [of rest "[]"] by simp
    ultimately show ?thesis using none by simp
  next
    case False
    note pre = this
    show ?thesis
    proof (cases "rest = []")
      case True
      with d pre trailing show ?thesis using suffix_last [of rest pre] stem_last [of rest pre] by simp
    next
      case False
      with d pre ext show ?thesis using suffix_last [of rest pre] stem_last [of rest pre] by simp
    qed
  qed
qed

lemma dot_in_tl_last: "pre \<noteq> [] \<Longrightarrow> dot \<in> set (tl (pre @ dot # rest))"
  by (cases pre) auto

text \<open>
  C5. Categorization is total: for every name, the empty one and names with code points
  beyond ASCII included, it returns one of the eight categories. It depends on the
  name only through the lower-cased part after the final dot: when the name has a dot
  beyond its first position, the category is the one the table gives for a dot followed
  by that lower-cased part; when it has none (no dot at all, or only the leading dot of
  a dotfile), the extension is empty and the category is \<open>Other\<close>. So
  \<open>file.backup.txt\<close> is a document.
\<close>

theorem categorize_file_by_final_suffix:
  "categorize_file T name \<in> set categories
   \<and> categorize_file T name =
       (if dot \<in> set (tl name)
        then categorize_in FILE_EXTENSIONS (dot # py_lower T (after_last dot name))
        else OTHER)
   \<and> (dot \<notin> set (tl name) \<longrightarrow> get_file_extension T name = [])
   \<and> categorize_file T [] = OTHER
   \<and> categorize_file T (ustr ''.hidden'') = OTHER
   \<and> categorize_file T (ustr ''file.backup.txt'') = ustr ''Documents''"
proof -
  have range: "categorize_file T name \<in> set categories"
    unfolding categorize_file_def categories_def by (rule categorize_in_range)
  have empty: "categorize_in FILE_EXTENSIONS [] = OTHER"
    using empty_not_listed by (rule categorize_in_unlisted)
  have single: "categorize_in FILE_EXTENSIONS [dot] = OTHER"
    using dot_not_listed by (rule categorize_in_unlisted)
  have main: "categorize_file T name =
       (if dot \<in> set (tl name)
        then categorize_in FILE_EXTENSIONS (dot # py_lower T (after_last dot name))
        else OTHER)"
  proof (cases name rule: suffix_cases)
    case none
    then show ?thesis by (simp add: categorize_file_def get_file_extension_def py_lower_Nil empty)
  next
    case (trailing pre)
    then show ?thesis
      using after_last_last [of dot "[]" pre]
      by (simp add: categorize_file_def get_file_extension_def py_lower_Nil empty single
          dot_in_tl_last)
  next
    case (ext pre rest)
    then show ?thesis
      using after_last_last [of dot rest pre]
      by (simp add: categorize_file_def get_file_extension_def py_lower_dot dot_in_tl_last)
  qed
  have nodot: "dot \<notin> set (tl name) \<longrightarrow> get_file_extension T name = []"
  proof (cases name rule: suffix_cases)
    case none
    then show ?thesis by (simp add: get_file_extension_def py_lower_Nil)
  next
    case (trailing pre)
    then show ?thesis by (simp add: dot_in_tl_last)
  next
    case (ext pre rest)
    then show ?thesis by (simp add: dot_in_tl_last)
  qed
  have e1: "categorize_file T [] = OTHER"
    by (simp add: categorize_file_def get_file_extension_def suffix_def py_lower_Nil empty)
  have e2: "categorize_file T (ustr ''.hidden'') = OTHER"
    by (simp add: categorize_file_def get_file_extension_def suffix_def dot_def ustr_def
        py_lower_Nil empty)
  have e3: "categorize_file T (ustr ''file.backup.txt'') = ustr ''Documents''"
    by (simp add: categorize_file_def get_file_extension_def suffix_def dot_def ustr_def
        FILE_EXTENSIONS_def py_lower_def lower_cp_def ascii_lower_def)
  from range main nodot e1 e2 e3 show ?thesis by blast
qed

theorem categorize_file_by_final_suffix_witness:
  "dot \<in> set (tl (ustr ''archive.tar.GZ''))
   \<and> categorize_file ucd_lower (ustr ''archive.tar.GZ'')
       = categorize_in FILE_EXTENSIONS (dot # py_lower ucd_lower (ustr ''GZ''))
   \<and> categorize_file ucd_lower (ustr ''archive.tar.GZ'') = ustr ''Archives''
   \<and> dot \<notin> set (tl (ustr ''Makefile''))
   \<and> get_file_extension ucd_lower (ustr ''Makefile'') = []
   \<and> categorize_file ucd_lower (ustr ''Makefile'') = OTHER"
proof -
  have h1: "dot \<in> set (tl (ustr ''archive.tar.GZ''))" by (simp add: ustr_def dot_def)
  have h2: "dot \<notin> set (tl (ustr ''Makefile''))" by (simp add: ustr_def dot_def)
  have a: "after_last dot (ustr ''archive.tar.GZ'') = ustr ''GZ''" by (simp add: ustr_def dot_def)
  have v: "categorize_in FILE_EXTENSIONS (dot # py_lower ucd_lower (ustr ''GZ'')) = ustr ''Archives''"
    by (simp add: ustr_def dot_def FILE_EXTENSIONS_def py_lower_def lower_cp_def ascii_lower_def)
  show ?thesis
    using h1 h2 a v
      categorize_file_by_final_suffix [of ucd_lower "ustr ''archive.tar.GZ''"]
      categorize_file_by_final_suffix [of ucd_lower "ustr ''Makefile''"]
    by simp
qed

subsection \<open>Letter case\<close>

lemma lower_cp_ascii_upper: "lower_cp T (ascii_upper c) = lower_cp T c"
  by (auto simp: lower_cp_def ascii_upper_def ascii_lower_def)

lemma py_lower_ascii_upper: "py_lower T (map ascii_upper s) = py_lower T s"
  by (simp add: py_lower_def comp_def lower_cp_ascii_upper)

lemma ascii_upper_dot: "ascii_upper c = dot \<longleftrightarrow> c = dot"
  by (auto simp: ascii_upper_def dot_def)

lemma suffix_ascii_upper_case_extension:
  "suffix (ascii_upper_case_extension name) = map ascii_upper (suffix name)"
proof (cases name rule: suffix_cases)
  case none
  then show ?thesis by (simp add: ascii_upper_case_extension_def)
next
  case (trailing pre)
  then show ?thesis by (simp add: ascii_upper_case_extension_def)
next
  case (ext pre rest)
  have d: "dot \<notin> set (map ascii_upper rest)"
    using ext(4) by (auto simp: ascii_upper_dot dest: sym)
  have "ascii_upper_case_extension name = pre @ dot # map ascii_upper rest"
    using ext by (simp add: ascii_upper_case_extension_def ascii_upper_dot [THEN iffD2])
  then show ?thesis
    using ext suffix_last [OF d, of pre] by (simp add: ascii_upper_dot [THEN iffD2])
qed

lemma py_upper_ascii: "\<forall>c \<in> set s. c < 128 \<Longrightarrow> py_upper U s = map ascii_upper s"
  by (induction s) (auto simp: py_upper_def upper_cp_def)

text \<open>
  C6, as stated, fails beyond ASCII: the dotless i (U+0131) is a lower-case letter that
  \<open>lower()\<close> leaves alone and \<open>upper()\<close> turns into \<open>I\<close>, so a name with the
  extension \<open>.g\<close>U+0131\<open>f\<close> is in \<open>Other\<close>, while the same name with its extension
  upper-cased ends in \<open>.GIF\<close> and is an image.
\<close>

theorem categorize_file_upper_case_counterexample:
  "categorize_file ucd_lower (ustr ''a.g'' @ [0x131] @ ustr ''f'')
     \<noteq> categorize_file ucd_lower (upper_case_extension ucd_upper (ustr ''a.g'' @ [0x131] @ ustr ''f''))"
  by (simp add: categorize_file_def get_file_extension_def upper_case_extension_def stem_def
      suffix_def dot_def ustr_def py_lower_def py_upper_def lower_cp_def upper_cp_def ascii_lower_def
      ascii_upper_def ucd_lower_def ucd_upper_def FILE_EXTENSIONS_def OTHER_def)

text \<open>
  C6, amended. For every file name, upper-casing the ASCII letters of its extension
  does not change its category; hence for every file name whose extension is ASCII,
  the category of the name with its extension upper-cased is the category of the name.
\<close>

theorem categorize_file_ascii_case_insensitive:
  "categorize_file T (ascii_upper_case_extension name) = categorize_file T name
   \<and> (list_all (\<lambda>c. c < 128) (suffix name) \<longrightarrow>
        categorize_file T (upper_case_extension U name) = categorize_file T name)"
proof -
  have a: "categorize_file T (ascii_upper_case_extension name) = categorize_file T name"
    by (simp add: categorize_file_def get_file_extension_def suffix_ascii_upper_case_extension
        py_lower_ascii_upper)
  have "upper_case_extension U name = ascii_upper_case_extension name"
    if "list_all (\<lambda>c. c < 128) (suffix name)"
    using that
    by (simp add: upper_case_extension_def ascii_upper_case_extension_def py_upper_ascii
        list_all_iff)
  with a show ?thesis by simp
qed

theorem categorize_file_ascii_case_insensitive_witness:
  "list_all (\<lambda>c. c < 128) (suffix (ustr ''photo.Jpg''))
   \<and> upper_case_extension ucd_upper (ustr ''photo.Jpg'') = ustr ''photo.JPG''
   \<and> categorize_file ucd_lower (ustr ''photo.JPG'') = categorize_file ucd_lower (ustr ''photo.Jpg'')
   \<and> categorize_file ucd_lower (ustr ''photo.Jpg'') = ustr ''Images''"
proof -
  have h: "list_all (\<lambda>c. c < 128) (suffix (ustr ''photo.Jpg''))"
    by (simp add: suffix_def dot_def ustr_def)
  have u: "upper_case_extension ucd_upper (ustr ''photo.Jpg'') = ustr ''photo.JPG''"
    by (simp add: upper_case_extension_def stem_def suffix_def dot_def ustr_def py_upper_def
        upper_cp_def ascii_upper_def)
  have v: "categorize_file ucd_lower (ustr ''photo.Jpg'') = ustr ''Images''"
    by (simp add: categorize_file_def get_file_extension_def suffix_def dot_def ustr_def
        FILE_EXTENSIONS_def py_lower_def lower_cp_def ascii_lower_def)
  show ?thesis
    using h u v categorize_file_ascii_case_insensitive [of ucd_lower "ustr ''photo.Jpg''" ucd_upper]
    by simp
qed

subsection \<open>The table and the scenario of three files\<close>

lemma FILE_EXTENSIONS_SECTION6:
  "FILE_EXTENSIONS = map (\<lambda>(k, v). (ustr k, map ustr v)) SECTION6_TABLE"
  by (simp add: FILE_EXTENSIONS_def SECTION6_TABLE_def)

lemma cat_jpg: "categorize_file T (ustr ''image1.jpg'') = ustr ''Images''"
  by (simp add: categorize_file_def get_file_extension_def suffix_def dot_def ustr_def
      FILE_EXTENSIONS_def py_lower_def lower_cp_def ascii_lower_def)

lemma cat_pdf: "categorize_file T (ustr ''document1.pdf'') = ustr ''Documents''"
  by (simp add: categorize_file_def get_file_extension_def suffix_def dot_def ustr_def
      FILE_EXTENSIONS_def py_lower_def lower_cp_def ascii_lower_def)

lemma cat_xyz: "categorize_file T (ustr ''unknown1.xyz'') = ustr ''Other''"
  by (simp add: categorize_file_def get_file_extension_def suffix_def dot_def ustr_def
      FILE_EXTENSIONS_def py_lower_def lower_cp_def ascii_lower_def OTHER_def)

lemma scenario_folders:
  "create_category_folders (scenario_dir c1 c2 c3) =
     (Inr (),
      Some (Dir ([(ustr ''image1.jpg'', File c1), (ustr ''document1.pdf'', File c2),
                (ustr ''unknown1.xyz'', File c3)] @ map (\<lambda>c. (c, Dir [])) categories)),
      map CreatedFolder categories)"
  by (simp add: create_category_folders_def categories_eq scenario_dir_def mkdir_exist_ok_def ustr_def)

lemma scenario_live:
  "organize_files T no_denial (scenario_dir c1 c2 c3) False
     = (Inr scenario_result, scenario_layout c1 c2 c3,
        FoundFiles 3 # map CreatedFolder categories
          @ [Moved (ustr ''image1.jpg'') (ustr ''Images''),
             Moved (ustr ''document1.pdf'') (ustr ''Documents''),
             Moved (ustr ''unknown1.xyz'') (ustr ''Other'')])"
  by code_simp

lemma scenario_dry:
  "organize_files T denied (scenario_dir c1 c2 c3) True
     = (Inr scenario_result, scenario_dir c1 c2 c3,
        [FoundFiles 3, WouldMove (ustr ''image1.jpg'') (ustr ''Images''),
             WouldMove (ustr ''document1.pdf'') (ustr ''Documents''),
             WouldMove (ustr ''unknown1.xyz'') (ustr ''Other'')])"
  by code_simp

lemma scenario_total: "total_reported scenario_result = 3"
  by code_simp

text \<open>
  C8. The table of the program is the table of section 6 of the specification. A file
  whose extension is listed under a category is put in that category, a file whose
  extension is listed nowhere is put in \<open>Other\<close>. A live run on a directory holding
  \<open>image1.jpg\<close>, \<open>document1.pdf\<close> and \<open>unknown1.xyz\<close> returns these three names
  under \<open>Images\<close>, \<open>Documents\<close> and \<open>Other\<close>, every other category empty, leaves
  each file in the folder of its category, and the summary reports a total of 3.
\<close>

theorem classification_agrees_with_table:
  "FILE_EXTENSIONS = map (\<lambda>(k, v). (ustr k, map ustr v)) SECTION6_TABLE
   \<and> ((category, extensions) \<in> set FILE_EXTENSIONS \<and> get_file_extension T name \<in> set extensions
        \<longrightarrow> categorize_file T name = category)
   \<and> (get_file_extension T name \<notin> set (concat (map snd FILE_EXTENSIONS))
        \<longrightarrow> categorize_file T name = OTHER)
   \<and> categorize_file T (ustr ''image1.jpg'') = ustr ''Images''
   \<and> categorize_file T (ustr ''document1.pdf'') = ustr ''Documents''
   \<and> categorize_file T (ustr ''unknown1.xyz'') = ustr ''Other''
   \<and> organize_files T no_denial (scenario_dir c1 c2 c3) False
       = (Inr scenario_result, scenario_layout c1 c2 c3,
          FoundFiles 3 # map CreatedFolder categories
            @ [Moved (ustr ''image1.jpg'') (ustr ''Images''),
               Moved (ustr ''document1.pdf'') (ustr ''Documents''),
               Moved (ustr ''unknown1.xyz'') (ustr ''Other'')])
   \<and> total_reported scenario_result = 3"
proof -
  have listed: "categorize_file T name = category"
    if "(category, extensions) \<in> set FILE_EXTENSIONS"
      and "get_file_extension T name \<in> set extensions"
    unfolding categorize_file_def
    using distinct_extensions that by (rule categorize_in_listed)
  have unlisted: "categorize_file T name = OTHER"
    if "get_file_extension T name \<notin> set (concat (map snd FILE_EXTENSIONS))"
    unfolding categorize_file_def using that by (rule categorize_in_unlisted)
  from listed unlisted show ?thesis
    using FILE_EXTENSIONS_SECTION6 cat_jpg cat_pdf cat_xyz scenario_live scenario_total
    by blast
qed

theorem classification_agrees_with_table_witness:
  "(ustr ''Audio'', map ustr [''.mp3'', ''.wav'', ''.flac'', ''.aac'', ''.ogg'', ''.m4a'', ''.wma''])
      \<in> set FILE_EXTENSIONS
   \<and> get_file_extension ucd_lower (ustr ''song.FLAC'')
      \<in> set (map ustr [''.mp3'', ''.wav'', ''.flac'', ''.aac'', ''.ogg'', ''.m4a'', ''.wma''])
   \<and> categorize_file ucd_lower (ustr ''song.FLAC'') = ustr ''Audio''
   \<and> get_file_extension ucd_lower (ustr ''x.tar.xz'') \<notin> set (concat (map snd FILE_EXTENSIONS))
   \<and> categorize_file ucd_lower (ustr ''x.tar.xz'') = OTHER"
proof -
  have h1: "(ustr ''Audio'', map ustr [''.mp3'', ''.wav'', ''.flac'', ''.aac'', ''.ogg'', ''.m4a'', ''.wma''])
      \<in> set FILE_EXTENSIONS"
    by (simp add: FILE_EXTENSIONS_def)
  have e1: "get_file_extension ucd_lower (ustr ''song.FLAC'') = ustr ''.flac''"
    by (simp add: get_file_extension_def suffix_def dot_def ustr_def py_lower_def lower_cp_def
        ascii_lower_def)
  have h2: "get_file_extension ucd_lower (ustr ''song.FLAC'')
      \<in> set (map ustr [''.mp3'', ''.wav'', ''.flac'', ''.aac'', ''.ogg'', ''.m4a'', ''.wma''])"
    unfolding e1 by simp
  have e3: "get_file_extension ucd_lower (ustr ''x.tar.xz'') = ustr ''.xz''"
    by (simp add: get_file_extension_def suffix_def dot_def ustr_def py_lower_def lower_cp_def
        ascii_lower_def)
  have h3: "get_file_extension ucd_lower (ustr ''x.tar.xz'') \<notin> set (concat (map snd FILE_EXTENSIONS))"
    unfolding e3 all_extensions by (simp add: ustr_def)
  show ?thesis
    using h1 h2 h3
      classification_agrees_with_table [of "ustr ''Audio''"
        "map ustr [''.mp3'', ''.wav'', ''.flac'', ''.aac'', ''.ogg'', ''.m4a'', ''.wma'']"
        ucd_lower "ustr ''song.FLAC''"]
      classification_agrees_with_table [of _ _ ucd_lower "ustr ''x.tar.xz''"]
    by blast
qed

subsection \<open>The dry run\<close>

lemma distinct_categories: "distinct categories"
  unfolding categories_eq by (simp add: ustr_def)

lemma update_as_map:
  "distinct (map fst xs) \<Longrightarrow> k \<in> fst ` set xs
     \<Longrightarrow> AList.update k w xs = map (\<lambda>(k', v'). (k', if k' = k then w else v')) xs"
proof (induction xs)
  case Nil
  then show ?case by simp
next
  case (Cons x xs)
  obtain k0 v0 where x: "x = (k0, v0)" by (cases x)
  show ?case
  proof (cases "k0 = k")
    case True
    with Cons.prems x have "k \<notin> fst ` set xs" by auto
    then have "map (\<lambda>(k', v'). (k', if k' = k then w else v')) xs = xs"
      by (induction xs) auto
    with True x show ?thesis by simp
  next
    case False
    with Cons x show ?thesis by auto
  qed
qed

lemma append_to_as_map:
  assumes "distinct (map fst moved)" and "c \<in> fst ` set moved"
  shows "append_to moved c n = Inr (map (\<lambda>(k, l). (k, if k = c then l @ [n] else l)) moved)"
proof -
  from assms(2) obtain l where l: "map_of moved c = Some l"
    by (metis domD dom_map_of_conv_image_fst)
  have "AList.update c (l @ [n]) moved
          = map (\<lambda>(k', v'). (k', if k' = c then l @ [n] else v')) moved"
    using assms by (rule update_as_map)
  also have "\<dots> = map (\<lambda>(k, l). (k, if k = c then l @ [n] else l)) moved"
  proof (rule map_cong [OF refl])
    fix x assume "x \<in> set moved"
    then have "map_of moved (fst x) = Some (snd x)"
      using map_of_is_SomeI [OF assms(1), of "fst x" "snd x"] by simp
    with l have "fst x = c \<Longrightarrow> snd x = l" by simp
    then show "(case x of (k', v') \<Rightarrow> (k', if k' = c then l @ [n] else v'))
              = (case x of (k, l) \<Rightarrow> (k, if k = c then l @ [n] else l))"
      by (cases x) auto
  qed
  finally show ?thesis using l by (simp add: append_to_def)
qed

lemma categorize_file_in_categories: "categorize_file T name \<in> set categories"
  unfolding categorize_file_def categories_def by (rule categorize_in_range)

lemma move_loop_dry_run:
  assumes "distinct (map fst moved)" and "set categories \<subseteq> fst ` set moved"
  shows "move_loop T denied True files fs moved
           = (map (\<lambda>(k, l). (k, l @ filter (\<lambda>n. categorize_file T n = k) files)) moved, fs,
              map (\<lambda>n. WouldMove n (categorize_file T n)) files)"
  using assms
proof (induction files arbitrary: moved)
  case Nil
  then show ?case by simp
next
  case (Cons n files)
  let ?c = "categorize_file T n"
  let ?moved1 = "map (\<lambda>(k, l). (k, if k = ?c then l @ [n] else l)) moved"
  have c: "?c \<in> fst ` set moved"
    using Cons.prems(2) categorize_file_in_categories by blast
  have a: "append_to moved ?c n = Inr ?moved1"
    using Cons.prems(1) c by (rule append_to_as_map)
  have keys: "map fst ?moved1 = map fst moved" by (induction moved) auto
  have step: "process_file T denied True n fs moved = (?moved1, fs, WouldMove n ?c)"
    by (simp add: process_file_def a Let_def)
  have ih: "move_loop T denied True files fs ?moved1
           = (map (\<lambda>(k, l). (k, l @ filter (\<lambda>n. categorize_file T n = k) files)) ?moved1, fs,
              map (\<lambda>n. WouldMove n (categorize_file T n)) files)"
  proof (rule Cons.IH)
    show "distinct (map fst ?moved1)" unfolding keys by (rule Cons.prems(1))
    have "fst ` set ?moved1 = fst ` set moved"
      by (simp add: image_comp comp_def case_prod_unfold)
    with Cons.prems(2) show "set categories \<subseteq> fst ` set ?moved1" by blast
  qed
  have eq: "map (\<lambda>(k, l). (k, l @ filter (\<lambda>n. categorize_file T n = k) files)) ?moved1
        = map (\<lambda>(k, l). (k, l @ filter (\<lambda>n. categorize_file T n = k) (n # files))) moved"
    unfolding map_map by (rule map_cong [OF refl]) (auto split: prod.splits)
  have "move_loop T denied True (n # files) fs moved
          = (map (\<lambda>(k, l). (k, l @ filter (\<lambda>n. categorize_file T n = k) files)) ?moved1, fs,
              WouldMove n ?c # map (\<lambda>n. WouldMove n (categorize_file T n)) files)"
    by (simp only: move_loop.simps step ih prod.case)
  then show ?case unfolding eq by simp
qed

text \<open>
  C2. A dry run changes nothing in the file system, whatever lies at the target path:
  no folder is created, no file is moved or altered. On an existing directory it
  returns, for each category, the names of the regular files of that category in the
  order of enumeration, and prints one \<open>Would move\<close> line for each file.
\<close>

theorem organize_files_dry_run_pure:
  "fst (snd (organize_files T denied fs True)) = fs
   \<and> organize_files T denied (Some (Dir es)) True
       = (Inr (map (\<lambda>category. (category,
                 filter (\<lambda>name. categorize_file T name = category) (regular_files es))) categories),
          Some (Dir es),
          if regular_files es = [] then [NoFilesFound]
          else FoundFiles (length (regular_files es))
               # map (\<lambda>name. WouldMove name (categorize_file T name)) (regular_files es))"
proof
  have m: "move_loop T denied True files fs empty_result
           = (map (\<lambda>category. (category, filter (\<lambda>name. categorize_file T name = category) files)) categories,
              fs, map (\<lambda>n. WouldMove n (categorize_file T n)) files)" for files fs
  proof -
    have "distinct (map fst empty_result)" "set categories \<subseteq> fst ` set empty_result"
      using distinct_categories by (simp_all add: empty_result_def comp_def image_comp)
    then show ?thesis
      by (simp add: move_loop_dry_run) (simp add: empty_result_def comp_def)
  qed
  show "fst (snd (organize_files T denied fs True)) = fs"
  proof (cases "iterdir fs")
    case (Inl e)
    then show ?thesis by (simp add: organize_files_def)
  next
    case (Inr es')
    then show ?thesis by (simp add: organize_files_def m Let_def)
  qed
  show "organize_files T denied (Some (Dir es)) True
       = (Inr (map (\<lambda>category. (category,
                 filter (\<lambda>name. categorize_file T name = category) (regular_files es))) categories),
          Some (Dir es),
          if regular_files es = [] then [NoFilesFound]
          else FoundFiles (length (regular_files es))
               # map (\<lambda>name. WouldMove name (categorize_file T name)) (regular_files es))"
    by (simp add: organize_files_def exists_fs_def iterdir_def m Let_def)
      (simp add: empty_result_def)
qed

subsection \<open>Folder provisioning\<close>

lemma create_folders_loop_ok:
  assumes "list_all (no_file_named es) cs" and "distinct cs"
  shows "create_folders_loop cs (Some (Dir es))
           = (Inr (),
              Some (Dir (es @ map (\<lambda>c. (c, Dir [])) (filter (\<lambda>c. map_of es c = None) cs))),
              map CreatedFolder cs)"
  using assms
proof (induction cs arbitrary: es)
  case Nil
  then show ?case by simp
next
  case (Cons c cs)
  show ?case
  proof (cases "map_of es c")
    case None
    let ?es = "es @ [(c, Dir [])]"
    have m: "mkdir_exist_ok (Some (Dir es)) c = Inr (Some (Dir ?es))"
      using None by (simp add: mkdir_exist_ok_def)
    have same: "map_of ?es c' = map_of es c'" if "c' \<in> set cs" for c'
      using that Cons.prems(2) by (auto simp: map_add_def split: option.splits)
    have "list_all (no_file_named ?es) cs"
      using Cons.prems(1) same by (simp add: list_all_iff no_file_named_def)
    moreover have "distinct cs" using Cons.prems(2) by simp
    ultimately have ih: "create_folders_loop cs (Some (Dir ?es))
           = (Inr (),
              Some (Dir (?es @ map (\<lambda>c. (c, Dir [])) (filter (\<lambda>c. map_of ?es c = None) cs))),
              map CreatedFolder cs)"
      by (rule Cons.IH)
    have "filter (\<lambda>c. map_of ?es c = None) cs = filter (\<lambda>c. map_of es c = None) cs"
      by (rule filter_cong [OF refl]) (simp only: same)
    with m ih None show ?thesis by simp
  next
    case (Some nd)
    then obtain d where d: "map_of es c = Some (Dir d)"
      using Cons.prems(1) by (cases nd) (auto simp: no_file_named_def)
    then have m: "mkdir_exist_ok (Some (Dir es)) c = Inr (Some (Dir es))"
      by (simp add: mkdir_exist_ok_def)
    have "create_folders_loop cs (Some (Dir es))
           = (Inr (),
              Some (Dir (es @ map (\<lambda>c. (c, Dir [])) (filter (\<lambda>c. map_of es c = None) cs))),
              map CreatedFolder cs)"
      using Cons.prems by (intro Cons.IH) simp_all
    with m d show ?thesis by simp
  qed
qed

lemma map_of_provisioned:
  "map_of (provisioned es) k
     = (case map_of es k of Some v \<Rightarrow> Some v
        | None \<Rightarrow> if k \<in> set categories then Some (Dir []) else None)"
proof (cases "map_of es k")
  case None
  have "map_of (map (\<lambda>c. (c, Dir [])) cs) k = (if k \<in> set cs then Some (Dir []) else None)" for cs
    by (induction cs) auto
  with None show ?thesis by (simp add: provisioned_def map_add_def)
next
  case (Some v)
  then show ?thesis by (simp add: provisioned_def map_add_def)
qed

lemma provisioned_folder_exists:
  assumes "list_all (no_file_named es) categories" and "c \<in> set categories"
  shows "\<exists>d. map_of (provisioned es) c = Some (Dir d)"
proof (cases "map_of es c")
  case None
  with assms(2) show ?thesis by (simp add: map_of_provisioned)
next
  case (Some nd)
  with assms show ?thesis
    by (cases nd) (auto simp: map_of_provisioned no_file_named_def list_all_iff)
qed

lemma provisioned_again: 
  assumes "list_all (no_file_named es) categories"
  shows "list_all (no_file_named (provisioned es)) categories"
    and "filter (\<lambda>c. map_of (provisioned es) c = None) categories = []"
proof -
  show "list_all (no_file_named (provisioned es)) categories"
    unfolding list_all_iff
  proof
    fix c assume "c \<in> set categories"
    with assms obtain d where "map_of (provisioned es) c = Some (Dir d)"
      using provisioned_folder_exists by blast
    then show "no_file_named (provisioned es) c" by (simp add: no_file_named_def)
  qed
  show "filter (\<lambda>c. map_of (provisioned es) c = None) categories = []"
    unfolding filter_empty_conv
  proof
    fix c assume "c \<in> set categories"
    with assms obtain d where "map_of (provisioned es) c = Some (Dir d)"
      using provisioned_folder_exists by blast
    then show "\<not> map_of (provisioned es) c = None" by simp
  qed
qed

lemma distinct_provisioned:
  assumes "distinct (map fst es)"
  shows "distinct (map fst (provisioned es))"
proof -
  have "fst ` set es \<inter> set (filter (\<lambda>c. map_of es c = None) categories) = {}"
    by (auto simp: map_of_eq_None_iff)
  with assms distinct_categories show ?thesis
    by (simp add: provisioned_def comp_def)
qed


lemma mkdir_exist_ok_keeps:
  assumes "mkdir_exist_ok fs c = Inr fs'"
  shows "\<exists>es es'. fs = Some (Dir es) \<and> fs' = Some (Dir es')
           \<and> (\<exists>d. map_of es' c = Some (Dir d))
           \<and> (\<forall>k v. map_of es k = Some v \<longrightarrow> map_of es' k = Some v)"
  using assms
  by (auto simp: mkdir_exist_ok_def map_add_def split: option.splits node.splits)

lemma create_folders_loop_keeps:
  assumes "create_folders_loop cs (Some (Dir es)) = (r, fs', out)"
  shows "\<exists>es'. fs' = Some (Dir es') \<and> (\<forall>k v. map_of es k = Some v \<longrightarrow> map_of es' k = Some v)"
  using assms
proof (induction cs arbitrary: es r out fs')
  case Nil
  then show ?case by auto
next
  case (Cons c cs)
  show ?case
  proof (cases "mkdir_exist_ok (Some (Dir es)) c")
    case (Inl e)
    with Cons.prems show ?thesis by auto
  next
    case (Inr fs1)
    then obtain es1 where es1: "fs1 = Some (Dir es1)"
      "\<forall>k v. map_of es k = Some v \<longrightarrow> map_of es1 k = Some v"
      using mkdir_exist_ok_keeps by fastforce
    obtain r1 fs2 out1 where l: "create_folders_loop cs (Some (Dir es1)) = (r1, fs2, out1)"
      by (cases "create_folders_loop cs (Some (Dir es1))") auto
    with Inr es1 Cons.prems have "fs2 = fs'" by simp
    with Cons.IH [OF l] es1(2) show ?thesis by blast
  qed
qed

lemma mkdir_exist_ok_present:
  "map_of es c = Some (Dir d) \<Longrightarrow> mkdir_exist_ok (Some (Dir es)) c = Inr (Some (Dir es))"
  by (simp add: mkdir_exist_ok_def)

lemma create_folders_loop_twice:
  assumes "create_folders_loop cs fs = (r, fs', out)"
  shows "create_folders_loop cs fs' = (r, fs', out)"
  using assms
proof (induction cs arbitrary: fs r out)
  case Nil
  then show ?case by simp
next
  case (Cons c cs)
  show ?case
  proof (cases "mkdir_exist_ok fs c")
    case (Inl e)
    with Cons.prems show ?thesis by auto
  next
    case (Inr fs1)
    then obtain es es1 d where es: "fs = Some (Dir es)" "fs1 = Some (Dir es1)"
      "map_of es1 c = Some (Dir d)"
      using mkdir_exist_ok_keeps by blast
    obtain r1 fs2 out1 where l: "create_folders_loop cs fs1 = (r1, fs2, out1)"
      by (cases "create_folders_loop cs fs1") auto
    with Inr Cons.prems have eq: "r1 = r" "fs2 = fs'" "out = CreatedFolder c # out1" by auto
    from l es(2) obtain es2 where es2: "fs2 = Some (Dir es2)" "map_of es2 c = Some (Dir d)"
      using create_folders_loop_keeps es(3) by blast
    have "mkdir_exist_ok fs2 c = Inr fs2"
      using es2 by (simp add: mkdir_exist_ok_present)
    moreover have "create_folders_loop cs fs' = (r1, fs', out1)"
      using l eq(2) by (intro Cons.IH) simp
    ultimately show ?thesis using eq by simp
  qed
qed

text \<open>
  C7, as stated, fails: in an existing directory that holds a regular file named
  \<open>Other\<close>, \<open>mkdir(exist_ok=True)\<close> raises \<open>FileExistsError\<close>, already in the
  first call.
\<close>

theorem create_category_folders_file_in_the_way:
  "fst (create_category_folders (Some (Dir [(ustr ''Other'', File [])]))) = Inl FileExistsError"
  by (simp add: create_category_folders_def categories_eq mkdir_exist_ok_def ustr_def)

text \<open>
  C7, amended. A second call of \<open>create_category_folders\<close> right after a first one has
  the same outcome, prints the same lines and leaves the file system as the first call
  left it. On an existing directory in which no regular file bears the name of a
  category, both calls raise no error; the first keeps every entry that was there and
  adds an empty folder for each category without one, so that no name occurs twice; the
  folders are processed in the order of the table, \<open>Other\<close> last.
\<close>

theorem create_category_folders_idempotent:
  "(create_category_folders fs = (r, fs', out) \<longrightarrow> create_category_folders fs' = (r, fs', out))
   \<and> (list_all (no_file_named es) categories \<longrightarrow>
        create_category_folders (Some (Dir es))
          = (Inr (), Some (Dir (provisioned es)), map CreatedFolder categories)
        \<and> create_category_folders (Some (Dir (provisioned es)))
          = (Inr (), Some (Dir (provisioned es)), map CreatedFolder categories)
        \<and> (distinct (map fst es) \<longrightarrow> distinct (map fst (provisioned es))))
   \<and> categories = map ustr [''Images'', ''Documents'', ''Videos'', ''Audio'', ''Archives'', ''Code'',
        ''Executables'', ''Other'']"
proof -
  have twice: "create_category_folders fs' = (r, fs', out)"
    if "create_category_folders fs = (r, fs', out)" for fs r fs' out
    using that unfolding create_category_folders_def by (rule create_folders_loop_twice)
  have once: "create_category_folders (Some (Dir es))
          = (Inr (), Some (Dir (provisioned es)), map CreatedFolder categories)"
    if "list_all (no_file_named es) categories" for es
    using that distinct_categories
    by (simp add: create_category_folders_def create_folders_loop_ok provisioned_def)
  have again: "create_category_folders (Some (Dir (provisioned es)))
          = (Inr (), Some (Dir (provisioned es)), map CreatedFolder categories)"
    if "list_all (no_file_named es) categories"
    using once [OF that] by (rule twice)
  from twice once again distinct_provisioned categories_eq show ?thesis by blast
qed


theorem create_category_folders_idempotent_witness:
  "list_all (no_file_named sample_entries) categories
   \<and> distinct (map fst sample_entries)
   \<and> create_category_folders (Some (Dir sample_entries))
       = (Inr (), Some (Dir (provisioned sample_entries)), map CreatedFolder categories)
   \<and> create_category_folders (Some (Dir (provisioned sample_entries)))
       = (Inr (), Some (Dir (provisioned sample_entries)), map CreatedFolder categories)
   \<and> distinct (map fst (provisioned sample_entries))"
proof -
  have h1: "list_all (no_file_named sample_entries) categories"
    by (simp add: sample_entries_def categories_eq no_file_named_def ustr_def)
  have h2: "distinct (map fst sample_entries)"
    by (simp add: sample_entries_def ustr_def)
  show ?thesis
    using h1 h2
      create_category_folders_idempotent [of "Some (Dir sample_entries)" "Inr ()"
        "Some (Dir (provisioned sample_entries))" "map CreatedFolder categories" sample_entries]
    by blast
qed

subsection \<open>Moves that fail in a live run\<close>

lemma move_error_file:
  assumes "map_of es n = Some (File x)" and "map_of es c = Some (Dir ces)"
  shows "move_error denied (Some (Dir es)) c n
     = (case map_of ces n of
          Some (Dir des) \<Rightarrow>
            if map_of des n \<noteq> None then Some ShutilError
            else if denied n then Some PermissionError else None
        | _ \<Rightarrow> if denied n then Some PermissionError else None)"
  using assms
  by (simp add: move_error_def shutil_move_def is_file_def split: option.splits node.splits)

lemma move_error_invariant:
  assumes "map_of es n = Some (File x)" and "map_of es c = Some (Dir ces)"
    and "map_of es1 n = Some (File x1)" and "map_of es1 c = Some (Dir ces1)"
    and "map_of ces1 n = map_of ces n"
  shows "move_error denied (Some (Dir es1)) c n = move_error denied (Some (Dir es)) c n"
  using assms by (simp add: move_error_file)

lemma shutil_move_file_success:
  assumes "map_of es m = Some (File x)" and "map_of es c = Some (Dir ces)"
    and "shutil_move denied (Some (Dir es)) c m = Inr fs1"
  shows "\<exists>es1 ces1. fs1 = Some (Dir es1)
           \<and> (\<forall>k. map_of es1 k = (if k = c then Some (Dir ces1) else if k = m then None else map_of es k))
           \<and> (\<forall>k. k \<noteq> m \<longrightarrow> map_of ces1 k = map_of ces k)
           \<and> map_of ces1 m \<noteq> None"
proof -
  have cm: "c \<noteq> m" using assms(1,2) by auto
  show ?thesis
  proof (cases "map_of ces m")
    case None
    with assms cm show ?thesis
      by (auto simp: shutil_move_def is_file_def update_conv' delete_conv' split: if_splits)
  next
    case (Some nd)
    show ?thesis
    proof (cases nd)
      case (File y)
      with Some assms cm show ?thesis
        by (auto simp: shutil_move_def is_file_def update_conv' delete_conv' split: if_splits)
    next
      case (Dir des)
      with Some assms cm show ?thesis
        by (auto simp: shutil_move_def is_file_def update_conv' delete_conv' split: if_splits)
    qed
  qed
qed


lemma ready_category:
  "ready es files \<Longrightarrow> c \<in> set categories \<Longrightarrow> \<exists>d. map_of es c = Some (Dir d)"
  by (simp add: ready_def)

lemma ready_file:
  "ready es files \<Longrightarrow> n \<in> set files \<Longrightarrow> \<exists>x. map_of es n = Some (File x)"
  by (simp add: ready_def)

lemma ready_distinct: "ready es files \<Longrightarrow> distinct files"
  by (simp add: ready_def)

lemma readyI:
  assumes "\<And>c. c \<in> set categories \<Longrightarrow> \<exists>d. map_of es c = Some (Dir d)"
    and "\<And>n. n \<in> set files \<Longrightarrow> \<exists>x. map_of es n = Some (File x)"
    and "distinct files"
  shows "ready es files"
  using assms by (simp add: ready_def)

lemma ready_tail: "ready es (m # rest) \<Longrightarrow> ready es rest"
  by (simp add: ready_def)

lemma ready_file_not_category:
  assumes "ready es files" and "n \<in> set files"
  shows "n \<notin> set categories"
proof
  assume "n \<in> set categories"
  with assms(1) obtain d where "map_of es n = Some (Dir d)" using ready_category by blast
  moreover from assms obtain x where "map_of es n = Some (File x)" using ready_file by blast
  ultimately show False by simp
qed

text \<open>One successful move keeps the state ready for the other files, and does not change
  whether their moves fail.\<close>

lemma move_step:
  assumes r: "ready es (m # rest)"
    and mv: "shutil_move denied (Some (Dir es)) (categorize_file T m) m = Inr fs1"
  shows "\<exists>es1. fs1 = Some (Dir es1) \<and> ready es1 rest
           \<and> map_of es1 m = None
           \<and> sub_entry (Some (Dir es1)) (categorize_file T m) m \<noteq> None
           \<and> (\<forall>k. k \<noteq> m \<longrightarrow> k \<notin> set categories \<longrightarrow> map_of es1 k = map_of es k)
           \<and> (\<forall>k c. k \<noteq> m \<longrightarrow> c \<in> set categories \<longrightarrow>
                 sub_entry (Some (Dir es1)) c k = sub_entry (Some (Dir es)) c k)
           \<and> (\<forall>n \<in> set rest. move_error denied (Some (Dir es1)) (categorize_file T n) n
                 = move_error denied (Some (Dir es)) (categorize_file T n) n)"
proof -
  let ?c = "categorize_file T m"
  have cc: "?c \<in> set categories" by (rule categorize_file_in_categories)
  from r obtain x where x: "map_of es m = Some (File x)" using ready_file by fastforce
  from r cc obtain ces where ces: "map_of es ?c = Some (Dir ces)" using ready_category by blast
  from shutil_move_file_success [OF x ces mv] obtain es1 ces1 where
    fs1: "fs1 = Some (Dir es1)"
    and top: "\<And>k. map_of es1 k = (if k = ?c then Some (Dir ces1) else if k = m then None else map_of es k)"
    and sub: "\<And>k. k \<noteq> m \<Longrightarrow> map_of ces1 k = map_of ces k"
    and there: "map_of ces1 m \<noteq> None"
    by blast
  have cm: "?c \<noteq> m" using x ces by auto
  have mcat: "m \<notin> set categories" using r ready_file_not_category by fastforce
  have notm: "n \<noteq> m" if "n \<in> set rest" for n using that r ready_distinct by fastforce
  have isfile: "\<exists>y. map_of es n = Some (File y)" if "n \<in> set rest" for n
    using that r ready_file by fastforce
  have notc: "n \<noteq> ?c" if "n \<in> set rest" for n using isfile [OF that] ces by auto
  have r1: "ready es1 rest"
  proof (rule readyI)
    fix c assume c: "c \<in> set categories"
    then obtain d where "map_of es c = Some (Dir d)" using r ready_category by blast
    moreover have "c \<noteq> m" using c mcat by auto
    ultimately show "\<exists>d. map_of es1 c = Some (Dir d)" by (simp add: top)
  next
    fix n assume n: "n \<in> set rest"
    with isfile notm notc show "\<exists>x. map_of es1 n = Some (File x)" by (simp add: top)
  next
    show "distinct rest" using r ready_distinct by fastforce
  qed
  have subeq: "sub_entry (Some (Dir es1)) c k = sub_entry (Some (Dir es)) c k"
    if "k \<noteq> m" and "c \<in> set categories" for k c
  proof (cases "c = ?c")
    case True
    with that ces sub show ?thesis by (simp add: sub_entry_def top_entry_def top)
  next
    case False
    moreover have "c \<noteq> m" using that mcat by auto
    ultimately show ?thesis by (simp add: sub_entry_def top_entry_def top)
  qed
  have inv: "move_error denied (Some (Dir es1)) (categorize_file T n) n
                 = move_error denied (Some (Dir es)) (categorize_file T n) n"
    if n: "n \<in> set rest" for n
  proof -
    let ?cn = "categorize_file T n"
    have cn: "?cn \<in> set categories" by (rule categorize_file_in_categories)
    from isfile [OF n] obtain y where y: "map_of es n = Some (File y)" by blast
    from r cn obtain cesn where cesn: "map_of es ?cn = Some (Dir cesn)"
      using ready_category by blast
    from r1 cn obtain cesn1 where cesn1: "map_of es1 ?cn = Some (Dir cesn1)"
      using ready_category by blast
    have y1: "map_of es1 n = Some (File y)" using y notm [OF n] notc [OF n] by (simp add: top)
    have "sub_entry (Some (Dir es1)) ?cn n = sub_entry (Some (Dir es)) ?cn n"
      using notm [OF n] cn by (rule subeq)
    then have "map_of cesn1 n = map_of cesn n"
      using cesn cesn1 by (simp add: sub_entry_def top_entry_def)
    with y cesn y1 cesn1 show ?thesis by (rule move_error_invariant)
  qed
  have "sub_entry (Some (Dir es1)) ?c m \<noteq> None"
    using there by (simp add: sub_entry_def top_entry_def top)
  moreover have "map_of es1 m = None" using cm by (simp add: top)
  moreover have "\<forall>k. k \<noteq> m \<longrightarrow> k \<notin> set categories \<longrightarrow> map_of es1 k = map_of es k"
    using cc by (auto simp: top)
  ultimately show ?thesis using fs1 r1 subeq inv by blast
qed

lemma move_loop_live:
  assumes "ready es files" and "distinct (map fst moved)" and "set categories \<subseteq> fst ` set moved"
  shows "\<exists>es'. move_loop T denied False files (Some (Dir es)) moved
            = (map (\<lambda>(k, l). (k, l @ filter (\<lambda>n. categorize_file T n = k
                        \<and> move_error denied (Some (Dir es)) k n = None) files)) moved,
               Some (Dir es'), map (move_line T denied (Some (Dir es))) files)
          \<and> (\<forall>k. k \<notin> set files \<longrightarrow> k \<notin> set categories \<longrightarrow> map_of es' k = map_of es k)
          \<and> (\<forall>n \<in> set files. map_of es' n
                = (if move_error denied (Some (Dir es)) (categorize_file T n) n = None then None
                   else map_of es n))
          \<and> (\<forall>k c. k \<notin> set files \<longrightarrow> c \<in> set categories \<longrightarrow>
                sub_entry (Some (Dir es')) c k = sub_entry (Some (Dir es)) c k)
          \<and> (\<forall>n \<in> set files. move_error denied (Some (Dir es)) (categorize_file T n) n = None \<longrightarrow>
                sub_entry (Some (Dir es')) (categorize_file T n) n \<noteq> None)"
  using assms
proof (induction files arbitrary: es moved)
  case Nil
  have "map (\<lambda>(k, l). (k, l)) moved = moved" by (induction moved) auto
  then show ?case by simp
next
  case (Cons m rest)
  let ?c = "categorize_file T m"
  let ?ME = "\<lambda>es k n. move_error denied (Some (Dir es)) k n"
  have mrest: "m \<notin> set rest" using Cons.prems(1) ready_distinct by fastforce
  have mcat: "m \<notin> set categories" using Cons.prems(1) ready_file_not_category by fastforce
  show ?case
  proof (cases "shutil_move denied (Some (Dir es)) ?c m")
    case (Inl e)
    have me: "?ME es ?c m = Some e" using Inl by (simp add: move_error_def)
    have pf: "process_file T denied False m (Some (Dir es)) moved
                = (moved, Some (Dir es), ErrorMoving m e)"
      using Inl by (simp add: process_file_def Let_def)
    have line: "move_line T denied (Some (Dir es)) m = ErrorMoving m e"
      using me by (simp add: move_line_def)
    have notP: "(categorize_file T m = k \<and> ?ME es k m = None) = False" for k
      using me by auto
    from Cons.IH [OF ready_tail [OF Cons.prems(1)] Cons.prems(2,3)] obtain es' where
      loop: "move_loop T denied False rest (Some (Dir es)) moved
            = (map (\<lambda>(k, l). (k, l @ filter (\<lambda>n. categorize_file T n = k \<and> ?ME es k n = None) rest)) moved,
               Some (Dir es'), map (move_line T denied (Some (Dir es))) rest)"
      and top: "\<forall>k. k \<notin> set rest \<longrightarrow> k \<notin> set categories \<longrightarrow> map_of es' k = map_of es k"
      and moved_top: "\<forall>n \<in> set rest. map_of es' n
                = (if ?ME es (categorize_file T n) n = None then None else map_of es n)"
      and sub: "\<forall>k c. k \<notin> set rest \<longrightarrow> c \<in> set categories \<longrightarrow>
                sub_entry (Some (Dir es')) c k = sub_entry (Some (Dir es)) c k"
      and there: "\<forall>n \<in> set rest. ?ME es (categorize_file T n) n = None \<longrightarrow>
                sub_entry (Some (Dir es')) (categorize_file T n) n \<noteq> None"
      by blast
    have 1: "move_loop T denied False (m # rest) (Some (Dir es)) moved
            = (map (\<lambda>(k, l). (k, l @ filter (\<lambda>n. categorize_file T n = k \<and> ?ME es k n = None) (m # rest))) moved,
               Some (Dir es'), map (move_line T denied (Some (Dir es))) (m # rest))"
      by (simp add: pf loop line notP)
    have 2: "\<forall>k. k \<notin> set (m # rest) \<longrightarrow> k \<notin> set categories \<longrightarrow> map_of es' k = map_of es k"
      using top by simp
    have "map_of es' m = map_of es m" using top mrest mcat by blast
    then have 3: "\<forall>n \<in> set (m # rest). map_of es' n
                = (if ?ME es (categorize_file T n) n = None then None else map_of es n)"
      using moved_top me by simp
    have 4: "\<forall>k c. k \<notin> set (m # rest) \<longrightarrow> c \<in> set categories \<longrightarrow>
                sub_entry (Some (Dir es')) c k = sub_entry (Some (Dir es)) c k"
      using sub by simp
    have 5: "\<forall>n \<in> set (m # rest). ?ME es (categorize_file T n) n = None \<longrightarrow>
                sub_entry (Some (Dir es')) (categorize_file T n) n \<noteq> None"
      using there me by simp
    from 1 2 3 4 5 show ?thesis by blast
  next
    case (Inr fs1)
    have me: "?ME es ?c m = None" using Inr by (simp add: move_error_def)
    from move_step [OF Cons.prems(1) Inr] obtain es1 where
      fs1: "fs1 = Some (Dir es1)" and r1: "ready es1 rest"
      and gone: "map_of es1 m = None"
      and placed: "sub_entry (Some (Dir es1)) ?c m \<noteq> None"
      and top1: "\<forall>k. k \<noteq> m \<longrightarrow> k \<notin> set categories \<longrightarrow> map_of es1 k = map_of es k"
      and sub1: "\<forall>k c. k \<noteq> m \<longrightarrow> c \<in> set categories \<longrightarrow>
                 sub_entry (Some (Dir es1)) c k = sub_entry (Some (Dir es)) c k"
      and inv: "\<forall>n \<in> set rest. ?ME es1 (categorize_file T n) n = ?ME es (categorize_file T n) n"
      by blast
    let ?moved1 = "map (\<lambda>(k, l). (k, if k = ?c then l @ [m] else l)) moved"
    have c: "?c \<in> fst ` set moved"
      using Cons.prems(3) categorize_file_in_categories by blast
    have a: "append_to moved ?c m = Inr ?moved1"
      using Cons.prems(2) c by (rule append_to_as_map)
    have keys: "map fst ?moved1 = map fst moved" by (induction moved) auto
    have d1: "distinct (map fst ?moved1)" unfolding keys by (rule Cons.prems(2))
    have "fst ` set ?moved1 = fst ` set moved"
      by (simp add: image_comp comp_def case_prod_unfold)
    with Cons.prems(3) have s1: "set categories \<subseteq> fst ` set ?moved1" by blast
    have pf: "process_file T denied False m (Some (Dir es)) moved
                = (?moved1, Some (Dir es1), Moved m ?c)"
      using Inr fs1 a by (simp add: process_file_def Let_def)
    have line: "move_line T denied (Some (Dir es)) m = Moved m ?c"
      using me by (simp add: move_line_def)
    from Cons.IH [OF r1 d1 s1] obtain es' where
      loop: "move_loop T denied False rest (Some (Dir es1)) ?moved1
            = (map (\<lambda>(k, l). (k, l @ filter (\<lambda>n. categorize_file T n = k \<and> ?ME es1 k n = None) rest)) ?moved1,
               Some (Dir es'), map (move_line T denied (Some (Dir es1))) rest)"
      and top: "\<forall>k. k \<notin> set rest \<longrightarrow> k \<notin> set categories \<longrightarrow> map_of es' k = map_of es1 k"
      and moved_top: "\<forall>n \<in> set rest. map_of es' n
                = (if ?ME es1 (categorize_file T n) n = None then None else map_of es1 n)"
      and sub: "\<forall>k c. k \<notin> set rest \<longrightarrow> c \<in> set categories \<longrightarrow>
                sub_entry (Some (Dir es')) c k = sub_entry (Some (Dir es1)) c k"
      and there: "\<forall>n \<in> set rest. ?ME es1 (categorize_file T n) n = None \<longrightarrow>
                sub_entry (Some (Dir es')) (categorize_file T n) n \<noteq> None"
      by blast
    have feq: "filter (\<lambda>n. categorize_file T n = k \<and> ?ME es1 k n = None) rest
             = filter (\<lambda>n. categorize_file T n = k \<and> ?ME es k n = None) rest" for k
      by (rule filter_cong [OF refl]) (use inv in auto)
    have leq: "map (move_line T denied (Some (Dir es1))) rest
             = map (move_line T denied (Some (Dir es))) rest"
      by (rule map_cong [OF refl]) (use inv in \<open>simp add: move_line_def\<close>)
    have P: "(categorize_file T m = k \<and> ?ME es k m = None) = (k = ?c)" for k
      using me by auto
    have meq: "map (\<lambda>(k, l). (k, l @ filter (\<lambda>n. categorize_file T n = k \<and> ?ME es k n = None) rest)) ?moved1
             = map (\<lambda>(k, l). (k, l @ filter (\<lambda>n. categorize_file T n = k \<and> ?ME es k n = None) (m # rest))) moved"
      unfolding map_map by (rule map_cong [OF refl]) (auto simp: P split: prod.splits)
    have 1: "move_loop T denied False (m # rest) (Some (Dir es)) moved
            = (map (\<lambda>(k, l). (k, l @ filter (\<lambda>n. categorize_file T n = k \<and> ?ME es k n = None) (m # rest))) moved,
               Some (Dir es'), map (move_line T denied (Some (Dir es))) (m # rest))"
      using meq by (simp add: pf loop line feq leq del: filter.simps)
    have 2: "\<forall>k. k \<notin> set (m # rest) \<longrightarrow> k \<notin> set categories \<longrightarrow> map_of es' k = map_of es k"
      using top top1 by simp
    have nm: "n \<noteq> m" if "n \<in> set rest" for n using that mrest by auto
    have ncat: "n \<notin> set categories" if "n \<in> set rest" for n
      using that r1 ready_file_not_category by blast
    have "map_of es' m = None" using top mrest mcat gone by simp
    moreover have "map_of es' n
                = (if ?ME es (categorize_file T n) n = None then None else map_of es n)"
      if "n \<in> set rest" for n
      using that moved_top inv top1 nm [OF that] ncat [OF that] by simp
    ultimately have 3: "\<forall>n \<in> set (m # rest). map_of es' n
                = (if ?ME es (categorize_file T n) n = None then None else map_of es n)"
      using me by simp
    have 4: "\<forall>k c. k \<notin> set (m # rest) \<longrightarrow> c \<in> set categories \<longrightarrow>
                sub_entry (Some (Dir es')) c k = sub_entry (Some (Dir es)) c k"
      using sub sub1 by simp
    have "sub_entry (Some (Dir es')) ?c m = sub_entry (Some (Dir es1)) ?c m"
      using sub mrest categorize_file_in_categories by blast
    with placed have "sub_entry (Some (Dir es')) ?c m \<noteq> None" by simp
    then have 5: "\<forall>n \<in> set (m # rest). ?ME es (categorize_file T n) n = None \<longrightarrow>
                sub_entry (Some (Dir es')) (categorize_file T n) n \<noteq> None"
      using there inv by simp
    from 1 2 3 4 5 show ?thesis by blast
  qed
qed

lemma create_category_folders_ok:
  assumes "list_all (no_file_named es) categories"
  shows "create_category_folders (Some (Dir es))
          = (Inr (), Some (Dir (provisioned es)), map CreatedFolder categories)"
  using assms distinct_categories
  by (simp add: create_category_folders_def create_folders_loop_ok provisioned_def)

lemma regular_files_entry:
  assumes "distinct (map fst es)" and "n \<in> set (regular_files es)"
  shows "\<exists>x. map_of es n = Some (File x)"
proof -
  from assms(2) obtain nd where nd: "(n, nd) \<in> set es" "is_file nd"
    by (auto simp: regular_files_def)
  then obtain x where "nd = File x" by (cases nd) (auto simp: is_file_def)
  with nd(1) assms(1) show ?thesis using map_of_is_SomeI by fastforce
qed

lemma distinct_regular_files: "distinct (map fst es) \<Longrightarrow> distinct (regular_files es)"
  unfolding regular_files_def by (rule distinct_map_filter)

lemma ready_provisioned:
  assumes "distinct (map fst es)" and "list_all (no_file_named es) categories"
  shows "ready (provisioned es) (regular_files es)"
proof (rule readyI)
  fix c assume "c \<in> set categories"
  with assms(2) show "\<exists>d. map_of (provisioned es) c = Some (Dir d)"
    by (rule provisioned_folder_exists)
next
  fix n assume "n \<in> set (regular_files es)"
  with assms(1) obtain x where "map_of es n = Some (File x)"
    using regular_files_entry by blast
  then show "\<exists>x. map_of (provisioned es) n = Some (File x)"
    by (simp add: map_of_provisioned)
next
  show "distinct (regular_files es)" using assms(1) by (rule distinct_regular_files)
qed

text \<open>
  C4. Take a live run on an existing directory whose names are distinct and in which no
  regular file bears the name of a category (so that provisioning succeeds). Whether the
  move of a file fails does not depend on the moves made before it (\<open>move_step\<close>), so
  failure is read in the state right after provisioning. The run returns a result,
  whatever moves fail: no failure aborts it. The result lists under each category
  exactly the files of that category whose move did not fail, so a file is recorded
  only if it was moved and a file whose move failed is recorded nowhere. The output has
  one line for each file, in order: \<open>Error moving\<close> with the name and the cause when the
  move failed, \<open>Moved\<close> otherwise. A file whose move failed is still where it was,
  unchanged; a file that was moved is gone from the top of the directory and lies in
  the folder of its category.
\<close>

theorem organize_files_move_failures:
  assumes "distinct (map fst es)" and "list_all (no_file_named es) categories"
  shows "fst (organize_files T denied (Some (Dir es)) False)
           = Inr (map (\<lambda>category. (category,
                    filter (\<lambda>name. categorize_file T name = category
                       \<and> move_error denied (Some (Dir (provisioned es))) category name = None)
                      (regular_files es))) categories)
         \<and> snd (snd (organize_files T denied (Some (Dir es)) False))
           = (if regular_files es = [] then [NoFilesFound]
              else FoundFiles (length (regular_files es)) # map CreatedFolder categories
                   @ map (move_line T denied (Some (Dir (provisioned es)))) (regular_files es))
         \<and> list_all (\<lambda>name.
              case move_error denied (Some (Dir (provisioned es))) (categorize_file T name) name of
                Some e \<Rightarrow>
                  top_entry (fst (snd (organize_files T denied (Some (Dir es)) False))) name
                    = top_entry (Some (Dir es)) name
              | None \<Rightarrow>
                  top_entry (fst (snd (organize_files T denied (Some (Dir es)) False))) name = None
                  \<and> sub_entry (fst (snd (organize_files T denied (Some (Dir es)) False)))
                       (categorize_file T name) name \<noteq> None)
             (regular_files es)"
proof (cases "regular_files es = []")
  case True
  then have "organize_files T denied (Some (Dir es)) False
               = (Inr empty_result, Some (Dir es), [NoFilesFound])"
    by (simp add: organize_files_def exists_fs_def iterdir_def)
  with True show ?thesis by (simp add: empty_result_def)
next
  case False
  let ?files = "regular_files es"
  let ?P = "Some (Dir (provisioned es))"
  have d: "distinct (map fst empty_result)" and s: "set categories \<subseteq> fst ` set empty_result"
    using distinct_categories by (simp_all add: empty_result_def comp_def image_comp)
  from move_loop_live [OF ready_provisioned [OF assms] d s, of T denied] obtain es' where
    loop: "move_loop T denied False ?files ?P empty_result
            = (map (\<lambda>(k, l). (k, l @ filter (\<lambda>n. categorize_file T n = k
                        \<and> move_error denied ?P k n = None) ?files)) empty_result,
               Some (Dir es'), map (move_line T denied ?P) ?files)"
    and moved_top: "\<forall>n \<in> set ?files. map_of es' n
                = (if move_error denied ?P (categorize_file T n) n = None then None
                   else map_of (provisioned es) n)"
    and there: "\<forall>n \<in> set ?files. move_error denied ?P (categorize_file T n) n = None \<longrightarrow>
                sub_entry (Some (Dir es')) (categorize_file T n) n \<noteq> None"
    by blast
  have res: "map (\<lambda>(k, l). (k, l @ filter (\<lambda>n. categorize_file T n = k
                        \<and> move_error denied ?P k n = None) ?files)) empty_result
           = map (\<lambda>category. (category,
                    filter (\<lambda>name. categorize_file T name = category
                       \<and> move_error denied ?P category name = None) ?files)) categories"
    by (simp add: empty_result_def comp_def)
  have run: "organize_files T denied (Some (Dir es)) False
      = (Inr (map (\<lambda>category. (category,
                    filter (\<lambda>name. categorize_file T name = category
                       \<and> move_error denied ?P category name = None) ?files)) categories),
         Some (Dir es'),
         FoundFiles (length ?files) # map CreatedFolder categories @ map (move_line T denied ?P) ?files)"
    using False
    by (simp add: organize_files_def exists_fs_def iterdir_def Let_def
        create_category_folders_ok [OF assms(2)] loop res)
  have same: "map_of (provisioned es) n = map_of es n" if "n \<in> set ?files" for n
    using regular_files_entry [OF assms(1) that] by (auto simp: map_of_provisioned)
  have la: "list_all (\<lambda>name.
              case move_error denied ?P (categorize_file T name) name of
                Some e \<Rightarrow> top_entry (Some (Dir es')) name = top_entry (Some (Dir es)) name
              | None \<Rightarrow> top_entry (Some (Dir es')) name = None
                  \<and> sub_entry (Some (Dir es')) (categorize_file T name) name \<noteq> None)
             ?files"
    unfolding list_all_iff
    using moved_top there same by (auto simp: top_entry_def split: option.splits)
  have p3: "fst (snd (organize_files T denied (Some (Dir es)) False)) = Some (Dir es')"
    by (simp add: run)
  show ?thesis unfolding p3 using False la by (simp add: run)
qed

theorem organize_files_move_failures_witness:
  "distinct (map fst refused_entries)
   \<and> list_all (no_file_named refused_entries) categories
   \<and> fst (organize_files ucd_lower refuse_c_pdf (Some (Dir refused_entries)) False)
       = Inr [(ustr ''Images'', []), (ustr ''Documents'', [ustr ''a.txt'']), (ustr ''Videos'', []),
              (ustr ''Audio'', []), (ustr ''Archives'', []), (ustr ''Code'', []),
              (ustr ''Executables'', []), (ustr ''Other'', [])]
   \<and> snd (snd (organize_files ucd_lower refuse_c_pdf (Some (Dir refused_entries)) False))
       = FoundFiles 3 # map CreatedFolder categories
         @ [Moved (ustr ''a.txt'') (ustr ''Documents''), ErrorMoving (ustr ''b.jpg'') ShutilError,
            ErrorMoving (ustr ''c.pdf'') PermissionError]"
proof -
  have h1: "distinct (map fst refused_entries)"
    by (simp add: refused_entries_def ustr_def)
  have h2: "list_all (no_file_named refused_entries) categories"
    by (simp add: refused_entries_def categories_eq no_file_named_def ustr_def)
  have v1: "map (\<lambda>category. (category,
                    filter (\<lambda>name. categorize_file ucd_lower name = category
                       \<and> move_error refuse_c_pdf (Some (Dir (provisioned refused_entries))) category name = None)
                      (regular_files refused_entries))) categories
          = [(ustr ''Images'', []), (ustr ''Documents'', [ustr ''a.txt'']), (ustr ''Videos'', []),
              (ustr ''Audio'', []), (ustr ''Archives'', []), (ustr ''Code'', []),
              (ustr ''Executables'', []), (ustr ''Other'', [])]"
    by code_simp
  have v2: "(if regular_files refused_entries = [] then [NoFilesFound]
              else FoundFiles (length (regular_files refused_entries)) # map CreatedFolder categories
                   @ map (move_line ucd_lower refuse_c_pdf (Some (Dir (provisioned refused_entries))))
                       (regular_files refused_entries))
          = FoundFiles 3 # map CreatedFolder categories
         @ [Moved (ustr ''a.txt'') (ustr ''Documents''), ErrorMoving (ustr ''b.jpg'') ShutilError,
            ErrorMoving (ustr ''c.pdf'') PermissionError]"
    by code_simp
  from organize_files_move_failures [OF h1 h2, of ucd_lower refuse_c_pdf]
  show ?thesis unfolding v1 v2 using h1 h2 by blast
qed

subsection \<open>The table behind the accessor\<close>

lemma agree_nth: "agree n h h' \<Longrightarrow> a < n \<Longrightarrow> h' ! a = h ! a"
  by (metis agree_def nth_take)

lemma get_list_agree: "agree n h h' \<Longrightarrow> a < n \<Longrightarrow> get_list h' a = get_list h a"
  by (simp add: get_list_def agree_nth) (simp add: agree_def)

lemma get_dict_agree: "agree n h h' \<Longrightarrow> a < n \<Longrightarrow> get_dict h' a = get_dict h a"
  by (simp add: get_dict_def agree_nth) (simp add: agree_def)

lemma agree_refl: "n \<le> length h \<Longrightarrow> agree n h h"
  by (simp add: agree_def)

lemma agree_trans: "agree n h h' \<Longrightarrow> agree n h' h'' \<Longrightarrow> agree n h h''"
  by (simp add: agree_def)

lemma agree_mono:
  assumes "agree n h h'" and "m \<le> n"
  shows "agree m h h'"
proof -
  have "take m (take n h') = take m (take n h)" using assms(1) by (simp add: agree_def)
  then have "take m h' = take m h" using assms(2) by (simp add: min_def)
  with assms show ?thesis by (simp add: agree_def)
qed

lemma agree_append: "n \<le> length h \<Longrightarrow> agree n h (h @ ys)"
  by (simp add: agree_def)

lemma agree_update: "n \<le> length h \<Longrightarrow> n \<le> a \<Longrightarrow> agree n h (h[a := x])"
  by (simp add: agree_def)

lemma get_list_bound: "get_list h a = Some l \<Longrightarrow> a < length h"
  by (simp add: get_list_def split: if_splits)

lemma get_dict_bound: "get_dict h a = Some items \<Longrightarrow> a < length h"
  by (simp add: get_dict_def split: if_splits)

lemma read_items_bound:
  "read_items h items = Some tbl \<Longrightarrow> a \<in> snd ` set items \<Longrightarrow> a < length h"
  by (induction h items arbitrary: tbl rule: read_items.induct)
    (auto split: option.splits dest: get_list_bound)

lemma read_items_agree:
  "agree n h h' \<Longrightarrow> \<forall>a \<in> snd ` set items. a < n \<Longrightarrow> read_items h' items = read_items h items"
  by (induction items) (auto simp: get_list_agree split: option.splits)

lemma read_table_agree:
  assumes "agree n h h'" and "get_dict h r = Some items" and "r < n"
    and "\<forall>a \<in> snd ` set items. a < n"
  shows "read_table h' r = read_table h r"
  using assms by (simp add: read_table_def get_dict_agree read_items_agree)


lemma read_items_extend:
  assumes "read_items h items = Some tbl"
  shows "read_items (h @ ys) items = Some tbl"
proof -
  have "agree (length h) h (h @ ys)" by (simp add: agree_append)
  moreover have "\<forall>a \<in> snd ` set items. a < length h"
    using assms read_items_bound by blast
  ultimately show ?thesis using assms by (simp add: read_items_agree)
qed

lemma get_list_alloc: "get_list (h @ [ListObj l]) (length h) = Some l"
  by (simp add: get_list_def)

lemma get_dict_alloc: "get_dict (h @ [DictObj items]) (length h) = Some items"
  by (simp add: get_dict_def)

lemma alloc_lists_spec:
  "\<exists>items h'. alloc_lists tbl h = (items, h')
      \<and> agree (length h) h h'
      \<and> (\<forall>a \<in> snd ` set items. length h \<le> a)
      \<and> read_items h' items = Some tbl"
proof (induction tbl arbitrary: h)
  case Nil
  show ?case by (simp add: agree_refl)
next
  case (Cons kv tbl)
  obtain k v where kv: "kv = (k, v)" by (cases kv)
  let ?h1 = "h @ [ListObj v]"
  from Cons.IH [of ?h1] obtain items h' where
    al: "alloc_lists tbl ?h1 = (items, h')" and ag: "agree (length ?h1) ?h1 h'"
    and lo: "\<forall>a \<in> snd ` set items. length ?h1 \<le> a" and rd: "read_items h' items = Some tbl"
    by blast
  have "get_list h' (length h) = get_list ?h1 (length h)"
    using ag by (rule get_list_agree) simp
  then have g: "get_list h' (length h) = Some v" by (simp add: get_list_alloc)
  have "agree (length h) h ?h1" by (simp add: agree_append)
  moreover have "agree (length h) ?h1 h'" using ag by (rule agree_mono) simp
  ultimately have ag': "agree (length h) h h'" by (rule agree_trans)
  have "alloc_lists (kv # tbl) h = ((k, length h) # items, h')"
    by (simp add: kv alloc_def al)
  moreover have "\<forall>a \<in> snd ` set ((k, length h) # items). length h \<le> a"
    using lo by auto
  moreover have "read_items h' ((k, length h) # items) = Some (kv # tbl)"
    by (simp add: g rd kv)
  ultimately show ?case using ag' by blast
qed

lemma copy_lists_spec:
  assumes "read_items h items = Some tbl"
  shows "\<exists>items' h'. copy_lists h items = Some (items', h')
      \<and> agree (length h) h h'
      \<and> (\<forall>a \<in> snd ` set items'. length h \<le> a)
      \<and> read_items h' items' = Some tbl"
  using assms
proof (induction items arbitrary: h tbl)
  case Nil
  then show ?case by (simp add: agree_refl)
next
  case (Cons ka items)
  obtain k a where ka: "ka = (k, a)" by (cases ka)
  from Cons.prems ka obtain l r where
    l: "get_list h a = Some l" and r: "read_items h items = Some r" and tbl: "tbl = (k, l) # r"
    by (auto split: option.splits)
  let ?h1 = "h @ [ListObj l]"
  have "read_items ?h1 items = Some r" using r by (rule read_items_extend)
  from Cons.IH [OF this] obtain items' h' where
    cp: "copy_lists ?h1 items = Some (items', h')" and ag: "agree (length ?h1) ?h1 h'"
    and lo: "\<forall>a \<in> snd ` set items'. length ?h1 \<le> a" and rd: "read_items h' items' = Some r"
    by blast
  have "get_list h' (length h) = get_list ?h1 (length h)"
    using ag by (rule get_list_agree) simp
  then have g: "get_list h' (length h) = Some l" by (simp add: get_list_alloc)
  have "agree (length h) h ?h1" by (simp add: agree_append)
  moreover have "agree (length h) ?h1 h'" using ag by (rule agree_mono) simp
  ultimately have ag': "agree (length h) h h'" by (rule agree_trans)
  have "copy_lists h (ka # items) = Some ((k, length h) # items', h')"
    by (simp add: ka l alloc_def cp)
  moreover have "\<forall>a \<in> snd ` set ((k, length h) # items'). length h \<le> a"
    using lo by auto
  moreover have "read_items h' ((k, length h) # items') = Some tbl"
    by (simp add: g rd tbl)
  ultimately show ?case using ag' by blast
qed

lemma owned_update:
  "\<forall>a \<in> snd ` set items. n \<le> a \<Longrightarrow> n \<le> v
     \<Longrightarrow> \<forall>a \<in> snd ` set (AList.update k v items). n \<le> a"
  by (induction items) auto

lemma owned_delete:
  "\<forall>a \<in> snd ` set items. n \<le> a \<Longrightarrow> \<forall>a \<in> snd ` set (AList.delete k items). n \<le> a"
  by (induction items) auto

lemma owned_value:
  "\<forall>a \<in> snd ` set items. n \<le> a \<Longrightarrow> map_of items k = Some a \<Longrightarrow> n \<le> a"
  by (induction items) (auto split: if_splits)

lemma owned_items:
  "caller_owns n h d \<Longrightarrow> get_dict h d = Some items \<Longrightarrow> \<forall>a \<in> snd ` set items. n \<le> a"
  by (simp add: caller_owns_def)

lemma get_dict_update_same: "d < length h \<Longrightarrow> get_dict (h[d := DictObj items]) d = Some items"
  by (simp add: get_dict_def)

lemma get_dict_update_other: "a \<noteq> d \<Longrightarrow> get_dict (h[a := x]) d = get_dict h d"
  by (simp add: get_dict_def)

lemma list_not_dict: "get_list h a = Some l \<Longrightarrow> get_dict h a = Some items \<Longrightarrow> False"
  by (auto simp: get_list_def get_dict_def split: if_splits obj.splits)

lemma read_items_keys: "read_items h items = Some tbl \<Longrightarrow> map fst items = map fst tbl"
  by (induction h items arbitrary: tbl rule: read_items.induct) (auto split: option.splits)

lemma set_dict_preserves:
  assumes ag: "agree n h0 h" and own: "caller_owns n h d" and gd: "get_dict h d = Some items"
    and sub: "\<forall>a \<in> snd ` set items'. n \<le> a"
  shows "agree n h0 (h[d := DictObj items']) \<and> caller_owns n (h[d := DictObj items']) d"
proof -
  have nd: "n \<le> d" using own by (simp add: caller_owns_def)
  have dl: "d < length h" using gd by (rule get_dict_bound)
  have "agree n h (h[d := DictObj items'])" using ag nd by (simp add: agree_def)
  with ag have "agree n h0 (h[d := DictObj items'])" by (rule agree_trans)
  moreover have "caller_owns n (h[d := DictObj items']) d"
    using nd sub dl by (simp add: caller_owns_def get_dict_update_same)
  ultimately show ?thesis by simp
qed

lemma set_list_preserves:
  assumes ag: "agree n h0 h" and own: "caller_owns n h d" and gd: "get_dict h d = Some items"
    and ma: "map_of items k = Some a" and gl: "get_list h a = Some l"
  shows "agree n h0 (h[a := x]) \<and> caller_owns n (h[a := x]) d"
proof -
  have nd: "n \<le> d" using own by (simp add: caller_owns_def)
  have na: "n \<le> a" using owned_items [OF own gd] ma by (rule owned_value)
  have ad: "a \<noteq> d" using gl gd list_not_dict by blast
  have "agree n h (h[a := x])" using ag na by (simp add: agree_def)
  with ag have "agree n h0 (h[a := x])" by (rule agree_trans)
  moreover have "caller_owns n (h[a := x]) d"
    using own ad by (simp add: caller_owns_def get_dict_update_other)
  ultimately show ?thesis by simp
qed

lemma mutate_preserves:
  assumes ag: "agree n h0 h" and own: "caller_owns n h d" and mu: "mutate h d m = Inr h'"
  shows "agree n h0 h' \<and> caller_owns n h' d"
proof -
  from mu obtain items where gd: "get_dict h d = Some items"
    by (auto simp: mutate_def split: option.splits)
  have nd: "n \<le> d" using own by (simp add: caller_owns_def)
  have dl: "d < length h" using gd by (rule get_dict_bound)
  have old: "\<forall>a \<in> snd ` set items. n \<le> a" using own gd by (rule owned_items)
  have nl: "n \<le> length h" using nd dl by simp
  show ?thesis
  proof (cases m)
    case (SetItem k v)
    let ?h1 = "h @ [ListObj v]"
    have h': "h' = ?h1[d := DictObj (AList.update k (length h) items)]"
      using mu gd SetItem by (simp add: mutate_def alloc_def)
    have "agree n h ?h1" using nl by (rule agree_append)
    with ag have ag1: "agree n h0 ?h1" by (rule agree_trans)
    have gd1: "get_dict ?h1 d = Some items"
      using gd dl by (simp add: get_dict_def nth_append)
    then have own1: "caller_owns n ?h1 d" using nd old by (simp add: caller_owns_def)
    have "\<forall>a \<in> snd ` set (AList.update k (length h) items). n \<le> a"
      using old nl by (rule owned_update)
    with ag1 own1 gd1 show ?thesis unfolding h' by (rule set_dict_preserves)
  next
    case (DelItem k)
    then have h': "h' = h[d := DictObj (AList.delete k items)]"
      using mu gd by (simp add: mutate_def split: if_splits)
    have "\<forall>a \<in> snd ` set (AList.delete k items). n \<le> a"
      using old by (rule owned_delete)
    with ag own gd show ?thesis unfolding h' by (rule set_dict_preserves)
  next
    case Clear
    then have h': "h' = h[d := DictObj []]" using mu gd by (simp add: mutate_def)
    have "\<forall>a \<in> snd ` set ([] :: (pystr \<times> nat) list). n \<le> a" by simp
    with ag own gd show ?thesis unfolding h' by (rule set_dict_preserves)
  next
    case (Alias k1 k2)
    with mu gd obtain a where a: "map_of items k2 = Some a"
      and h': "h' = h[d := DictObj (AList.update k1 a items)]"
      by (auto simp: mutate_def split: option.splits)
    have "n \<le> a" using old a by (rule owned_value)
    with old have "\<forall>b \<in> snd ` set (AList.update k1 a items). n \<le> b"
      by (rule owned_update)
    with ag own gd show ?thesis unfolding h' by (rule set_dict_preserves)
  next
    case (Append k x)
    with mu gd obtain a l where "map_of items k = Some a" "get_list h a = Some l"
      and h': "h' = h[a := ListObj (l @ [x])]"
      by (auto simp: mutate_def with_list_def split: option.splits)
    with ag own gd show ?thesis unfolding h' by (intro set_list_preserves)
  next
    case (SetElem k i x)
    with mu gd obtain a l where "map_of items k = Some a" "get_list h a = Some l"
      and h': "h' = h[a := ListObj (l[i := x])]"
      by (auto simp: mutate_def with_list_def split: option.splits if_splits)
    with ag own gd show ?thesis unfolding h' by (intro set_list_preserves)
  next
    case (ClearList k)
    with mu gd obtain a l where "map_of items k = Some a" "get_list h a = Some l"
      and h': "h' = h[a := ListObj []]"
      by (auto simp: mutate_def with_list_def split: option.splits)
    with ag own gd show ?thesis unfolding h' by (intro set_list_preserves)
  qed
qed

lemma mutate_all_preserves:
  "agree n h0 h \<Longrightarrow> caller_owns n h d \<Longrightarrow> agree n h0 (mutate_all h d ms)"
proof (induction ms arbitrary: h)
  case Nil
  then show ?case by simp
next
  case (Cons m ms)
  show ?case
  proof (cases "mutate h d m")
    case (Inl e)
    with Cons show ?thesis by simp
  next
    case (Inr h')
    with Cons.prems have "agree n h0 h' \<and> caller_owns n h' d" using mutate_preserves by blast
    with Inr Cons.IH show ?thesis by simp
  qed
qed

lemma init_spec:
  "\<exists>r items h. init dir h0 = (\<lparr>directory = dir, file_extensions_ref = r\<rparr>, h)
      \<and> get_dict h r = Some items
      \<and> read_items h items = Some FILE_EXTENSIONS"
proof -
  from alloc_lists_spec [of FILE_EXTENSIONS h0] obtain items h1 where
    al: "alloc_lists FILE_EXTENSIONS h0 = (items, h1)"
    and rd: "read_items h1 items = Some FILE_EXTENSIONS"
    by blast
  let ?h = "h1 @ [DictObj items]"
  have "init dir h0 = (\<lparr>directory = dir, file_extensions_ref = length h1\<rparr>, ?h)"
    by (simp add: init_def al alloc_def)
  moreover have "get_dict ?h (length h1) = Some items" by (rule get_dict_alloc)
  moreover have "read_items ?h items = Some FILE_EXTENSIONS" using rd by (rule read_items_extend)
  ultimately show ?thesis by blast
qed

lemma file_extensions_spec:
  assumes gd: "get_dict h (file_extensions_ref self) = Some items"
    and rd: "read_items h items = Some tbl"
  shows "\<exists>d h1. file_extensions h self = Some (d, h1)
      \<and> d \<noteq> file_extensions_ref self
      \<and> agree (length h) h h1 \<and> caller_owns (length h) h1 d
      \<and> read_table h1 d = Some tbl"
proof -
  from copy_lists_spec [OF rd] obtain items' h2 where
    cp: "copy_lists h items = Some (items', h2)" and ag: "agree (length h) h h2"
    and lo: "\<forall>a \<in> snd ` set items'. length h \<le> a" and rd2: "read_items h2 items' = Some tbl"
    by blast
  let ?h3 = "h2 @ [DictObj items']"
  have len: "length h \<le> length h2" using ag by (simp add: agree_def)
  have fe: "file_extensions h self = Some (length h2, ?h3)"
    by (simp add: file_extensions_def gd cp alloc_def)
  have "file_extensions_ref self < length h" using gd by (rule get_dict_bound)
  with len have ne: "length h2 \<noteq> file_extensions_ref self" by simp
  have "agree (length h) h2 ?h3" using len by (rule agree_append)
  with ag have ag3: "agree (length h) h ?h3" by (rule agree_trans)
  have gd3: "get_dict ?h3 (length h2) = Some items'" by (rule get_dict_alloc)
  have own: "caller_owns (length h) ?h3 (length h2)"
    using len lo by (simp add: caller_owns_def gd3)
  have "read_items ?h3 items' = Some tbl" using rd2 by (rule read_items_extend)
  then have "read_table ?h3 (length h2) = Some tbl" by (simp add: read_table_def gd3)
  with fe ne ag3 own show ?thesis by blast
qed

text \<open>
  C9. Take an organizer as \<open>__init__\<close> builds it, on any heap, and the mapping its
  \<open>file_extensions\<close> property returns. The mapping is a new dict with new lists, equal
  in content to the table. Whatever sequence of mutations a caller applies to that
  mapping and to the lists in it, \<open>categorize_file\<close> and \<open>create_category_folders\<close>
  answer afterwards as they did before, that is, by the built-in table.
\<close>

theorem file_extensions_returns_copy:
  "case init dir h0 of
     (self, h) \<Rightarrow>
       (case file_extensions h self of
          None \<Rightarrow> False
        | Some (d, h1) \<Rightarrow>
            d \<noteq> file_extensions_ref self
            \<and> read_table h1 d = Some FILE_EXTENSIONS
            \<and> categorize_file_obj T h self name = Some (categorize_file T name)
            \<and> categorize_file_obj T (mutate_all h1 d ms) self name = Some (categorize_file T name)
            \<and> category_list h self = Some categories
            \<and> category_list (mutate_all h1 d ms) self = Some categories
            \<and> create_category_folders_obj h self fs = Some (create_category_folders fs)
            \<and> create_category_folders_obj (mutate_all h1 d ms) self fs
                = Some (create_category_folders fs))"
proof -
  from init_spec [of dir h0] obtain r items h where
    i: "init dir h0 = (\<lparr>directory = dir, file_extensions_ref = r\<rparr>, h)"
    and gd: "get_dict h r = Some items"
    and rd: "read_items h items = Some FILE_EXTENSIONS"
    by blast
  let ?self = "\<lparr>directory = dir, file_extensions_ref = r\<rparr>"
  have gd': "get_dict h (file_extensions_ref ?self) = Some items" using gd by simp
  from file_extensions_spec [OF gd' rd] obtain d h1 where
    fe: "file_extensions h ?self = Some (d, h1)"
    and ne: "d \<noteq> file_extensions_ref ?self"
    and ag: "agree (length h) h h1" and own: "caller_owns (length h) h1 d"
    and copy: "read_table h1 d = Some FILE_EXTENSIONS"
    by blast
  let ?h2 = "mutate_all h1 d ms"
  have ag2: "agree (length h) h ?h2" using ag own by (rule mutate_all_preserves)
  have rl: "r < length h" using gd by (rule get_dict_bound)
  have below: "\<forall>a \<in> snd ` set items. a < length h" using rd read_items_bound by blast
  have gd2: "get_dict ?h2 r = Some items" using ag2 rl gd by (simp add: get_dict_agree)
  have t: "read_table h r = Some FILE_EXTENSIONS" using gd rd by (simp add: read_table_def)
  have "read_table ?h2 r = read_table h r" using ag2 gd rl below by (rule read_table_agree)
  with t have t2: "read_table ?h2 r = Some FILE_EXTENSIONS" by simp
  have keys: "map fst items = map fst FILE_EXTENSIONS" using rd by (rule read_items_keys)
  have c: "categorize_file_obj T h ?self name = Some (categorize_file T name)"
    by (simp add: categorize_file_obj_def t categorize_file_def)
  have c2: "categorize_file_obj T ?h2 ?self name = Some (categorize_file T name)"
    by (simp add: categorize_file_obj_def t2 categorize_file_def)
  have l: "category_list h ?self = Some categories"
    by (simp add: category_list_def gd keys categories_def)
  have l2: "category_list ?h2 ?self = Some categories"
    by (simp add: category_list_def gd2 keys categories_def)
  have f: "create_category_folders_obj h ?self fs = Some (create_category_folders fs)"
    by (simp add: create_category_folders_obj_def l create_category_folders_def)
  have f2: "create_category_folders_obj ?h2 ?self fs = Some (create_category_folders fs)"
    by (simp add: create_category_folders_obj_def l2 create_category_folders_def)
  show ?thesis
    unfolding i prod.case fe option.case using ne copy c c2 l l2 f f2 by blast
qed

text \<open>
  The copy is what protects the table: the same mutation applied through the reference
  the organizer holds would change the classification.
\<close>

lemma shared_reference_would_leak:
  "categorize_file_obj ucd_lower
      (mutate_all (snd (init [] [])) (file_extensions_ref (fst (init [] []))) [Clear])
      (fst (init [] [])) (ustr ''a.jpg'')
     = Some (ustr ''Other'')"
  by code_simp

end
